theory Spec2Isabelle
  imports Complex_Main "HOL-Library.Multiset"
begin

section \<open>Python floats (IEEE-754 binary64) as exact dyadic numbers\<close>

text \<open>
  The partitioner computes its cut points with Python floats: \<^verbatim>\<open>int(n * ratios[0])\<close> and
  \<^verbatim>\<open>int(n * (ratios[0] + ratios[1]))\<close>. A float is modelled exactly, as a pair of a signed
  significand and a binary exponent: \<open>Fl m e\<close> stands for the number \<open>m * 2^e\<close>. Every
  arithmetic operation computes the exact dyadic result and rounds it to 53 significant
  bits, ties to even, as binary64 does. Infinities, NaN, overflow and subnormal numbers
  are outside the model: the quantities of the pipelines (ratios between 0 and 1, list
  lengths) stay far away from them. For ratios of a magnitude near the largest float,
  where Python raises \<open>OverflowError\<close> at \<^verbatim>\<open>int(inf)\<close>, the model says nothing; every
  theorem below fixes its ratios.
\<close>

datatype pyfloat = Fl int int

fun bit_length :: "nat \<Rightarrow> nat" where
  "bit_length n = (if n = 0 then 0 else Suc (bit_length (n div 2)))"

declare bit_length.simps [simp del]

definition round_even :: "nat \<Rightarrow> nat \<Rightarrow> nat" where
  \<comment> \<open>\<open>a / 2^s\<close> rounded to the nearest integer, a tie going to the even neighbour\<close>
  "round_even a s =
     (let q = a div 2 ^ s; r = a mod 2 ^ s
      in if 2 * r > 2 ^ s \<or> (2 * r = 2 ^ s \<and> odd q) then q + 1 else q)"

definition fl_round :: "int \<Rightarrow> int \<Rightarrow> pyfloat" where
  \<comment> \<open>the exact number \<open>m * 2^e\<close>, rounded to 53 significant bits\<close>
  "fl_round m e =
     (let a = nat \<bar>m\<bar>; s = bit_length a - 53
      in Fl (sgn m * int (round_even a s)) (e + int s))"

definition fl_of_int :: "int \<Rightarrow> pyfloat" where
  "fl_of_int n = fl_round n 0"

fun fl_mul :: "pyfloat \<Rightarrow> pyfloat \<Rightarrow> pyfloat" where
  "fl_mul (Fl m1 e1) (Fl m2 e2) = fl_round (m1 * m2) (e1 + e2)"

fun fl_add :: "pyfloat \<Rightarrow> pyfloat \<Rightarrow> pyfloat" where
  "fl_add (Fl m1 e1) (Fl m2 e2) =
     (let e = min e1 e2
      in fl_round (m1 * 2 ^ nat (e1 - e) + m2 * 2 ^ nat (e2 - e)) e)"

fun fl_sub :: "pyfloat \<Rightarrow> pyfloat \<Rightarrow> pyfloat" where
  "fl_sub (Fl m1 e1) (Fl m2 e2) =
     (let e = min e1 e2
      in fl_round (m1 * 2 ^ nat (e1 - e) - m2 * 2 ^ nat (e2 - e)) e)"

fun fl_abs :: "pyfloat \<Rightarrow> pyfloat" where
  "fl_abs (Fl m e) = Fl \<bar>m\<bar> e"

fun fl_less :: "pyfloat \<Rightarrow> pyfloat \<Rightarrow> bool" where
  "fl_less (Fl m1 e1) (Fl m2 e2) =
     (let e = min e1 e2 in m1 * 2 ^ nat (e1 - e) < m2 * 2 ^ nat (e2 - e))"

fun fl_trunc :: "pyfloat \<Rightarrow> int" where
  \<comment> \<open>Python's \<^verbatim>\<open>int(x)\<close>: the integer part, rounding towards zero\<close>
  "fl_trunc (Fl m e) =
     (if 0 \<le> e then m * 2 ^ nat e else sgn m * (\<bar>m\<bar> div 2 ^ nat (- e)))"

text \<open>
  The float literals of the source, as Python reads them (\<^verbatim>\<open>float.hex\<close>):
  0.7 is \<^verbatim>\<open>0x1.6666666666666p-1\<close>, 0.2 is \<^verbatim>\<open>0x1.999999999999ap-3\<close>, 0.1 is
  \<^verbatim>\<open>0x1.999999999999ap-4\<close>, 1e-6 is \<^verbatim>\<open>0x1.0c6f7a0b5ed8dp-20\<close>; 0.5 and 0.3
  (\<^verbatim>\<open>0x1.3333333333333p-2\<close>) are used for the ratios of scenario E.
\<close>

definition f_0_7 :: pyfloat where "f_0_7 = Fl 6305039478318694 (- 53)"
definition f_0_2 :: pyfloat where "f_0_2 = Fl 7205759403792794 (- 55)"
definition f_0_1 :: pyfloat where "f_0_1 = Fl 7205759403792794 (- 56)"
definition f_0_5 :: pyfloat where "f_0_5 = Fl 4503599627370496 (- 53)"
definition f_0_3 :: pyfloat where "f_0_3 = Fl 5404319552844595 (- 54)"
definition f_1_0 :: pyfloat where "f_1_0 = Fl 1 0"
definition f_1em6 :: pyfloat where "f_1em6 = Fl 4722366482869645 (- 72)"

type_synonym ratios = "pyfloat \<times> pyfloat \<times> pyfloat"

definition default_ratios :: ratios where
  "default_ratios = (f_0_7, f_0_2, f_0_1)"

section \<open>Errors, sequences and slices\<close>

text \<open>
  The exceptions that can leave a function of the two scripts. \<open>SystemExit\<close> is
  \<^verbatim>\<open>sys.exit(1)\<close>; \<open>NameError\<close> is the use of a global name that the module never binds;
  \<open>OSError\<close> stands for the errors of the file system (\<^verbatim>\<open>mkdir\<close>, a missing executable);
  \<open>ValueError\<close> is what \<^verbatim>\<open>relative_to\<close> raises for a path outside the root.
\<close>

datatype py_error =
  AssertionError | IndexError | NameError | OSError | ValueError | SystemExit int

definition py_index :: "int \<Rightarrow> nat \<Rightarrow> nat" where
  \<comment> \<open>a slice bound, clipped to the sequence: a negative bound counts from the end\<close>
  "py_index i n = (if i < 0 then nat (max 0 (i + int n)) else min (nat i) n)"

definition py_slice :: "'a list \<Rightarrow> int \<Rightarrow> int \<Rightarrow> 'a list" where
  \<comment> \<open>\<^verbatim>\<open>xs[lo:hi]\<close>\<close>
  "py_slice xs lo hi =
     (let n = length xs in drop (py_index lo n) (take (py_index hi n) xs))"

definition py_slice_to :: "'a list \<Rightarrow> int \<Rightarrow> 'a list" where
  \<comment> \<open>\<^verbatim>\<open>xs[:hi]\<close>\<close>
  "py_slice_to xs hi = take (py_index hi (length xs)) xs"

definition py_slice_from :: "'a list \<Rightarrow> int \<Rightarrow> 'a list" where
  \<comment> \<open>\<^verbatim>\<open>xs[lo:]\<close>\<close>
  "py_slice_from xs lo = drop (py_index lo (length xs)) xs"

section \<open>The seeded generator and its shuffle\<close>

text \<open>
  \<^verbatim>\<open>random.Random(seed).shuffle(items)\<close> belongs to Python's standard library, not to
  the repository. The library is a parameter of the model: \<open>seed_gen\<close> builds the state of
  a fresh generator from the seed, \<open>randbelow g n\<close> draws an index below \<open>n\<close> and returns
  the next state. The shuffle itself is the library's loop
  \<^verbatim>\<open>for i in reversed(range(1, len(x))): j = randbelow(i + 1); x[i], x[j] = x[j], x[i]\<close>.
  An index outside the list raises \<open>IndexError\<close>, which a generator that keeps the
  contract \<open>rng_ok\<close> never causes.
\<close>

record 'g random_lib =
  seed_gen :: "int \<Rightarrow> 'g"
  randbelow :: "'g \<Rightarrow> nat \<Rightarrow> nat \<times> 'g"

definition rng_ok :: "'g random_lib \<Rightarrow> bool" where
  "rng_ok R = (\<forall>g n. 0 < n \<longrightarrow> fst (randbelow R g n) < n)"

fun shuffle_loop ::
  "('g \<Rightarrow> nat \<Rightarrow> nat \<times> 'g) \<Rightarrow> nat \<Rightarrow> 'g \<Rightarrow> 'a list \<Rightarrow> py_error option \<times> 'a list" where
  "shuffle_loop rb 0 g xs = (None, xs)"
| "shuffle_loop rb (Suc k) g xs =
     (case rb g (Suc (Suc k)) of
        (j, g') \<Rightarrow>
          if Suc k < length xs \<and> j < length xs
          then shuffle_loop rb k g' (xs[Suc k := xs ! j, j := xs ! Suc k])
          else (Some IndexError, xs))"

definition shuffle :: "'g random_lib \<Rightarrow> 'g \<Rightarrow> 'a list \<Rightarrow> py_error option \<times> 'a list" where
  \<comment> \<open>the exception, if any, and the list as the call leaves it (the shuffle is in place)\<close>
  "shuffle R g xs = shuffle_loop (randbelow R) (length xs - 1) g xs"

text \<open>
  A small generator that keeps the contract, to run the model on concrete inputs. It is
  not the Mersenne Twister: the theorems below hold for every generator that keeps the
  contract.
\<close>

definition lcg_random :: "nat random_lib" where
  "lcg_random =
     \<lparr> seed_gen = (\<lambda>seed. nat \<bar>seed\<bar>),
       randbelow = (\<lambda>g n. (g mod n, (g * 1103515245 + 12345) mod 2147483648)) \<rparr>"

section \<open>The partitioner\<close>

definition py_sum :: "pyfloat list \<Rightarrow> pyfloat" where
  \<comment> \<open>\<^verbatim>\<open>sum(ratios)\<close>: additions from the left, starting at the integer 0 (Python 3.12
      and later compensate the rounding errors of the additions; for the ratios
      considered here both sums are on the same side of the tolerance)\<close>
  "py_sum rs = foldl fl_add (fl_of_int 0) rs"

definition n1_of :: "ratios \<Rightarrow> nat \<Rightarrow> int" where
  \<comment> \<open>\<^verbatim>\<open>n1 = int(n * ratios[0])\<close>\<close>
  "n1_of rs n = (case rs of (r0, r1, r2) \<Rightarrow> fl_trunc (fl_mul (fl_of_int (int n)) r0))"

definition n2_of :: "ratios \<Rightarrow> nat \<Rightarrow> int" where
  \<comment> \<open>\<^verbatim>\<open>n2 = int(n * (ratios[0] + ratios[1]))\<close>\<close>
  "n2_of rs n =
     (case rs of (r0, r1, r2) \<Rightarrow> fl_trunc (fl_mul (fl_of_int (int n)) (fl_add r0 r1)))"

definition cut :: "ratios \<Rightarrow> 'a list \<Rightarrow> 'a list \<times> 'a list \<times> 'a list" where
  \<comment> \<open>\<^verbatim>\<open>return items[:n1], items[n1:n2], items[n2:]\<close>\<close>
  "cut rs ys =
     (let n = length ys; n1 = n1_of rs n; n2 = n2_of rs n
      in (py_slice_to ys n1, py_slice ys n1 n2, py_slice_from ys n2))"

definition ratios_ok :: "ratios \<Rightarrow> bool" where
  \<comment> \<open>\<^verbatim>\<open>abs(sum(ratios) - 1.0) < 1e-6\<close>\<close>
  "ratios_ok rs =
     (case rs of (r0, r1, r2) \<Rightarrow>
        fl_less (fl_abs (fl_sub (py_sum [r0, r1, r2]) f_1_0)) f_1em6)"

text \<open>\<^verbatim>\<open>split_list\<close> of the image script: the assertion, the shuffle, the two cuts.\<close>

definition split_list ::
  "'g random_lib \<Rightarrow> 'a list \<Rightarrow> ratios \<Rightarrow> int
     \<Rightarrow> py_error + ('a list \<times> 'a list \<times> 'a list)" where
  "split_list R items rs seed =
     (if \<not> ratios_ok rs then Inl AssertionError
      else case shuffle R (seed_gen R seed) items of
             (Some e, ys) \<Rightarrow> Inl e
           | (None, ys) \<Rightarrow> Inr (cut rs ys))"

text \<open>\<^verbatim>\<open>split_list\<close> of the video script: the same, without the assertion.\<close>

definition split_list_videos ::
  "'g random_lib \<Rightarrow> 'a list \<Rightarrow> ratios \<Rightarrow> int
     \<Rightarrow> py_error + ('a list \<times> 'a list \<times> 'a list)" where
  "split_list_videos R items rs seed =
     (case shuffle R (seed_gen R seed) items of
        (Some e, ys) \<Rightarrow> Inl e
      | (None, ys) \<Rightarrow> Inr (cut rs ys))"

text \<open>
  Both functions shuffle their argument in place; the two definitions are what a caller
  sees who passes a fresh list, as \<^verbatim>\<open>main\<close> does with \<^verbatim>\<open>list(file_list)\<close>.
\<close>

definition sizes :: "'a list \<times> 'a list \<times> 'a list \<Rightarrow> nat \<times> nat \<times> nat" where
  "sizes t = (case t of (tr, va, te) \<Rightarrow> (length tr, length va, length te))"

text \<open>
  Two auxiliary notions for the proofs about rounding: \<open>rnd a\<close> is the natural number
  \<open>a\<close> rounded to 53 significant bits, and \<open>trunc_nat v e\<close> is the integer part of
  \<open>v * 2^e\<close>.
\<close>

definition rnd :: "nat \<Rightarrow> nat" where
  "rnd a = round_even a (bit_length a - 53) * 2 ^ (bit_length a - 53)"

definition trunc_nat :: "nat \<Rightarrow> int \<Rightarrow> nat" where
  "trunc_nat v e = (if 0 \<le> e then v * 2 ^ nat e else v div 2 ^ nat (- e))"

section \<open>Paths and file names\<close>

text \<open>
  A \<^verbatim>\<open>pathlib.Path\<close> (of POSIX flavour) is the list of its components, the root \<^verbatim>\<open>/\<close> or
  \<^verbatim>\<open>//\<close> being the first component of an absolute path. \<open>parse_path\<close> is \<^verbatim>\<open>Path(s)\<close>: it
  keeps the root, splits at \<^verbatim>\<open>/\<close> and drops empty and \<^verbatim>\<open>.\<close> components. The operator
  \<^verbatim>\<open>/\<close> appends the components of a relative right operand and returns an absolute
  right operand alone. File and directory names are the names that the operating system
  reports: ASCII strings here, without \<^verbatim>\<open>/\<close>.
\<close>

type_synonym path = "string list"

fun split_on :: "char \<Rightarrow> string \<Rightarrow> string list" where
  "split_on c [] = [[]]"
| "split_on c (x # xs) =
     (if x = c then [] # split_on c xs
      else (case split_on c xs of
              w # ws \<Rightarrow> (x # w) # ws
            | [] \<Rightarrow> [[x]]))"

definition anchor :: "string \<Rightarrow> path" where
  \<comment> \<open>the root of an absolute path: exactly two leading slashes are kept as they are\<close>
  "anchor s =
     (if take 2 s = ''//'' \<and> take 3 s \<noteq> ''///'' then [''//'']
      else if take 1 s = ''/'' then [''/'']
      else [])"

definition parse_path :: "string \<Rightarrow> path" where
  "parse_path s =
     anchor s @ filter (\<lambda>w. w \<noteq> [] \<and> w \<noteq> ''.'') (split_on CHR ''/'' s)"

fun join_with :: "string \<Rightarrow> string list \<Rightarrow> string" where
  "join_with sep [] = []"
| "join_with sep [x] = x"
| "join_with sep (x # y # ys) = x @ sep @ join_with sep (y # ys)"

definition path_str :: "path \<Rightarrow> string" where
  \<comment> \<open>\<^verbatim>\<open>str(p)\<close>: the empty relative path prints as a dot\<close>
  "path_str p = (if p = [] then ''.'' else join_with ''/'' p)"

definition name_of :: "path \<Rightarrow> string" where
  \<comment> \<open>\<^verbatim>\<open>p.name\<close>\<close>
  "name_of p = (if p = [] then [] else last p)"

definition parent_of :: "path \<Rightarrow> path" where
  \<comment> \<open>\<^verbatim>\<open>p.parent\<close>\<close>
  "parent_of p = butlast p"

definition relative_to :: "path \<Rightarrow> path \<Rightarrow> py_error + path" where
  \<comment> \<open>\<^verbatim>\<open>p.relative_to(base)\<close>\<close>
  "relative_to p base =
     (if take (length base) p = base then Inr (drop (length base) p) else Inl ValueError)"

definition suffix_of :: "string \<Rightarrow> string" where
  \<comment> \<open>\<^verbatim>\<open>.suffix\<close> of a file name: from the last dot on, unless that dot is the name's
      first or last character\<close>
  "suffix_of nm =
     (let k = length (takeWhile (\<lambda>c. c \<noteq> CHR ''.'') (rev nm))
      in if Suc k < length nm \<and> 0 < k then drop (length nm - Suc k) nm else [])"

definition lower_char :: "char \<Rightarrow> char" where
  "lower_char c =
     (case map_of (zip ''ABCDEFGHIJKLMNOPQRSTUVWXYZ'' ''abcdefghijklmnopqrstuvwxyz'') c of
        Some d \<Rightarrow> d
      | None \<Rightarrow> c)"

definition lower :: "string \<Rightarrow> string" where
  "lower s = map lower_char s"

definition replace_backslash :: "string \<Rightarrow> string" where
  \<comment> \<open>\<^verbatim>\<open>.replace('\\', '/')\<close>\<close>
  "replace_backslash s = map (\<lambda>c. if c = CHR 0x5C then CHR ''/'' else c) s"

definition IMAGE_EXTS :: "string list" where
  "IMAGE_EXTS = [''.jpg'', ''.jpeg'', ''.png'', ''.bmp'', ''.tiff'', ''.webp'']"

definition VIDEO_EXTS :: "string list" where
  "VIDEO_EXTS = [''.mp4'', ''.mov'', ''.avi'', ''.mkv'', ''.webm'', ''.mpeg'', ''.mpg'']"

definition is_image_file :: "path \<Rightarrow> bool" where
  "is_image_file p = (lower (suffix_of (name_of p)) \<in> set IMAGE_EXTS)"

definition is_video_file :: "path \<Rightarrow> bool" where
  "is_video_file p = (lower (suffix_of (name_of p)) \<in> set VIDEO_EXTS)"

section \<open>The collector\<close>

text \<open>
  The source tree: a directory lists its entries in the order in which the operating
  system reports them. \<open>walk\<close> is \<^verbatim>\<open>os.walk\<close>, top down: one triple (directory, names of
  its subdirectories, names of its files) per directory; walking a plain file yields
  nothing. Symbolic links and directories that cannot be read are not modelled.
\<close>

datatype fsnode = File | Dir "(string \<times> fsnode) list"

fun is_dir :: "fsnode \<Rightarrow> bool" where
  "is_dir File = False"
| "is_dir (Dir es) = True"

fun walk :: "path \<Rightarrow> fsnode \<Rightarrow> (path \<times> string list \<times> string list) list"
  and walk_entries :: "path \<Rightarrow> (string \<times> fsnode) list \<Rightarrow> (path \<times> string list \<times> string list) list"
where
  "walk rootp File = []"
| "walk rootp (Dir es) =
     (rootp, map fst (filter (\<lambda>e. is_dir (snd e)) es),
             map fst (filter (\<lambda>e. \<not> is_dir (snd e)) es)) # walk_entries rootp es"
| "walk_entries rootp [] = []"
| "walk_entries rootp (e # es) = walk (rootp @ [fst e]) (snd e) @ walk_entries rootp es"

type_synonym manifest = "(string \<times> path list) list"

definition setdefault_extend :: "string \<Rightarrow> path list \<Rightarrow> manifest \<Rightarrow> manifest" where
  \<comment> \<open>\<^verbatim>\<open>files_by_class.setdefault(class_label, []).extend(files)\<close> on a dictionary that
      keeps the order of insertion\<close>
  "setdefault_extend k vs d =
     (if k \<in> fst ` set d
      then map (\<lambda>kv. if fst kv = k then (fst kv, snd kv @ vs) else kv) d
      else d @ [(k, vs)])"

fun gather_loop ::
  "(path \<Rightarrow> bool) \<Rightarrow> path \<Rightarrow> (path \<times> string list \<times> string list) list \<Rightarrow> manifest
     \<Rightarrow> py_error + manifest" where
  "gather_loop is_media src_root [] d = Inr d"
| "gather_loop is_media src_root ((rootp, ds, fs) # rest) d =
     (let media = filter is_media (map (\<lambda>f. rootp @ [f]) fs)
      in if media = [] then gather_loop is_media src_root rest d
         else (case relative_to rootp src_root of
                 Inl e \<Rightarrow> Inl e
               | Inr rel \<Rightarrow>
                   gather_loop is_media src_root rest
                     (setdefault_extend (replace_backslash (path_str rel)) media d)))"

definition gather_image_files :: "path \<Rightarrow> fsnode \<Rightarrow> py_error + manifest" where
  "gather_image_files src_root t = gather_loop is_image_file src_root (walk src_root t) []"

definition gather_video_files :: "path \<Rightarrow> fsnode \<Rightarrow> py_error + manifest" where
  "gather_video_files src_root t = gather_loop is_video_file src_root (walk src_root t) []"

section \<open>The state of a run and the external collaborators\<close>

datatype split = Train | Val | Test

fun split_name :: "split \<Rightarrow> string" where
  "split_name Train = ''train''"
| "split_name Val = ''val''"
| "split_name Test = ''test''"

text \<open>The calls a run makes to the world outside the scripts, in their order.\<close>

datatype call =
  Probe
| Mkdir path
| Resize path path
| Ffmpeg path path
| OpenCV path path

text \<open>The lines a run prints.\<close>

datatype message =
  SourceRootNotFound path
| GatheringImageFiles
| Found nat nat
| UsingFfmpeg
| FfmpegNotAvailable
| WarnFailedToProcess path
| WarnFfmpegFailedFor path
| WarnFfmpegFailed path
| ErrorOpenCVNotInstalled
| WarnCannotOpenVideo path
| WarnFallbackFailed path
| Done "nat \<times> nat \<times> nat"
| OutputStructureExample path

text \<open>
  The state of a run: the directories and files under the output root, the console, the
  calls made so far, the counters \<^verbatim>\<open>counts\<close> of \<^verbatim>\<open>main\<close>, and, as a record of what the loop
  computed, every triple (split, source path, destination path) in the order of the loop.
\<close>

record state =
  dirs :: "path set"
  files :: "path set"
  console :: "message list"
  calls :: "call list"
  counts :: "split \<Rightarrow> nat"
  plan :: "(split \<times> path \<times> path) list"

text \<open>
  What the world outside answers: whether the operating system refuses to create a
  directory, whether Pillow raises while it opens, converts, resizes or saves an image,
  whether the \<^verbatim>\<open>ffmpeg\<close> executable can be started and whether it exits with status zero,
  whether \<^verbatim>\<open>cv2\<close> can be imported, opens a video, and how many frames it reads.
\<close>

record env =
  mkdir_fails :: "path \<Rightarrow> bool"
  image_fails :: "path \<Rightarrow> path \<Rightarrow> bool"
  ffmpeg_installed :: bool
  ffmpeg_exit_ok :: "path \<Rightarrow> path \<Rightarrow> bool"
  cv2_installed :: bool
  cv2_opens :: "path \<Rightarrow> bool"
  cv2_frames :: "path \<Rightarrow> nat"

record args =
  args_src_root :: path
  args_output_root :: path
  args_seed :: int
  args_dry_run :: bool

definition say :: "message \<Rightarrow> state \<Rightarrow> state" where
  "say m s = s\<lparr>console := console s @ [m]\<rparr>"

definition called :: "call \<Rightarrow> state \<Rightarrow> state" where
  "called c s = s\<lparr>calls := calls s @ [c]\<rparr>"

definition ancestors :: "path \<Rightarrow> path set" where
  \<comment> \<open>the directory itself and every directory above it\<close>
  "ancestors d = set (map (\<lambda>k. take k d) [0 ..< Suc (length d)])"

definition mkdir_parents :: "env \<Rightarrow> path \<Rightarrow> state \<Rightarrow> py_error option \<times> state" where
  \<comment> \<open>\<^verbatim>\<open>d.mkdir(parents=True, exist_ok=True)\<close>\<close>
  "mkdir_parents E d s =
     (if mkdir_fails E d then (Some OSError, called (Mkdir d) s)
      else (None, (called (Mkdir d) s)\<lparr>dirs := dirs s \<union> ancestors d\<rparr>))"

section \<open>The transforms\<close>

text \<open>
  \<^verbatim>\<open>resize_and_save\<close>: the directory is created before the \<^verbatim>\<open>try\<close>; every exception of
  the image library inside the \<^verbatim>\<open>try\<close> is caught and printed. The target size and the
  quality go to the library unchanged and are left out.
\<close>

definition resize_and_save :: "env \<Rightarrow> path \<Rightarrow> path \<Rightarrow> state \<Rightarrow> py_error option \<times> state" where
  "resize_and_save E src_path dst_path s =
     (case mkdir_parents E (parent_of dst_path) s of
        (Some e, s1) \<Rightarrow> (Some e, s1)
      | (None, s1) \<Rightarrow>
          (let s2 = called (Resize src_path dst_path) s1
           in if image_fails E src_path dst_path
              then (None, say (WarnFailedToProcess src_path) s2)
              else (None, s2\<lparr>files := insert dst_path (files s2)\<rparr>)))"

text \<open>
  \<^verbatim>\<open>ffmpeg_available\<close>: the probe answers \<^verbatim>\<open>True\<close> when the process could be started.
\<close>

definition ffmpeg_available :: "env \<Rightarrow> state \<Rightarrow> bool \<times> state" where
  "ffmpeg_available E s = (ffmpeg_installed E, called Probe s)"

text \<open>
  \<^verbatim>\<open>reencode_with_ffmpeg\<close>: the directory is created first; only
  \<^verbatim>\<open>CalledProcessError\<close> (a non-zero exit) is caught. An executable that cannot be started
  raises an \<open>OSError\<close> that nothing catches.
\<close>

definition reencode_with_ffmpeg ::
  "env \<Rightarrow> path \<Rightarrow> path \<Rightarrow> state \<Rightarrow> (py_error + bool) \<times> state" where
  "reencode_with_ffmpeg E src dst s =
     (case mkdir_parents E (parent_of dst) s of
        (Some e, s1) \<Rightarrow> (Inl e, s1)
      | (None, s1) \<Rightarrow>
          (let s2 = called (Ffmpeg src dst) s1
           in if \<not> ffmpeg_installed E then (Inl OSError, s2)
              else if ffmpeg_exit_ok E src dst
              then (Inr True, s2\<lparr>files := insert dst (files s2)\<rparr>)
              else (Inr False, say (WarnFfmpegFailedFor src) s2)))"

text \<open>
  \<^verbatim>\<open>reencode_with_opencv\<close>. The loop over the frames stops when \<^verbatim>\<open>cap.read()\<close> has no frame
  left. Its body builds the canvas with \<^verbatim>\<open>np.ones\<close>, and the module binds no name \<^verbatim>\<open>np\<close>:
  the first frame raises \<open>NameError\<close>, outside any \<^verbatim>\<open>try\<close>.
\<close>

fun frame_loop :: "nat \<Rightarrow> py_error option" where
  "frame_loop 0 = None"
| "frame_loop (Suc k) = Some NameError"

definition reencode_with_opencv ::
  "env \<Rightarrow> path \<Rightarrow> path \<Rightarrow> state \<Rightarrow> (py_error + bool) \<times> state" where
  "reencode_with_opencv E src dst s =
     (let s0 = called (OpenCV src dst) s
      in if \<not> cv2_installed E then (Inr False, say ErrorOpenCVNotInstalled s0)
         else if \<not> cv2_opens E src then (Inr False, say (WarnCannotOpenVideo src) s0)
         else (case mkdir_parents E (parent_of dst) s0 of
                 (Some e, s1) \<Rightarrow> (Inl e, s1)
               | (None, s1) \<Rightarrow>
                   (let s2 = s1\<lparr>files := insert dst (files s1)\<rparr>
                    in case frame_loop (cv2_frames E src) of
                         Some e \<Rightarrow> (Inl e, s2)
                       | None \<Rightarrow> (Inr True, s2))))"

section \<open>The two pipelines\<close>

text \<open>A \<^verbatim>\<open>for\<close> loop whose body may raise: the first exception ends the loop.\<close>

fun for_each ::
  "('x \<Rightarrow> state \<Rightarrow> py_error option \<times> state) \<Rightarrow> 'x list \<Rightarrow> state \<Rightarrow> py_error option \<times> state"
where
  "for_each body [] s = (None, s)"
| "for_each body (x # xs) s =
     (case body x s of
        (Some e, s') \<Rightarrow> (Some e, s')
      | (None, s') \<Rightarrow> for_each body xs s')"

definition dst_path_of :: "path \<Rightarrow> split \<Rightarrow> string \<Rightarrow> string \<Rightarrow> path \<Rightarrow> path" where
  \<comment> \<open>\<^verbatim>\<open>out_root / split_name / kind / (Path(class_label) / src_path.name)\<close>; a label that
      starts with a slash (a directory name that starts with a backslash) is an absolute
      path and replaces what stands before it\<close>
  "dst_path_of out sp kind class_label src_path =
     (if anchor class_label = []
      then out @ [split_name sp] @ [kind] @ (parse_path class_label @ [name_of src_path])
      else parse_path class_label @ [name_of src_path])"

definition planned :: "split \<Rightarrow> path \<Rightarrow> path \<Rightarrow> state \<Rightarrow> state" where
  \<comment> \<open>\<^verbatim>\<open>counts[split_name] += 1\<close>, and the triple is recorded\<close>
  "planned sp src_path dst_path s =
     s\<lparr>counts := (counts s)(sp := counts s sp + 1),
       plan := plan s @ [(sp, src_path, dst_path)]\<rparr>"

definition item_images ::
  "env \<Rightarrow> args \<Rightarrow> string \<Rightarrow> split \<Rightarrow> path \<Rightarrow> state \<Rightarrow> py_error option \<times> state" where
  "item_images E a class_label sp src_path s =
     (let dst_path = dst_path_of (args_output_root a) sp ''images'' class_label src_path;
          s1 = planned sp src_path dst_path s
      in if args_dry_run a then (None, s1)
         else resize_and_save E src_path dst_path s1)"

definition item_videos ::
  "env \<Rightarrow> args \<Rightarrow> bool \<Rightarrow> string \<Rightarrow> split \<Rightarrow> path \<Rightarrow> state \<Rightarrow> py_error option \<times> state"
where
  "item_videos E a use_ffmpeg class_label sp src_path s =
     (let dst_path = dst_path_of (args_output_root a) sp ''videos'' class_label src_path;
          s1 = planned sp src_path dst_path s
      in if args_dry_run a then (None, s1)
         else if use_ffmpeg
         then (case reencode_with_ffmpeg E src_path dst_path s1 of
                 (Inl e, s2) \<Rightarrow> (Some e, s2)
               | (Inr ok, s2) \<Rightarrow>
                   (None, if \<not> ok then say (WarnFfmpegFailed src_path) s2 else s2))
         else (case reencode_with_opencv E src_path dst_path s1 of
                 (Inl e, s2) \<Rightarrow> (Some e, s2)
               | (Inr ok, s2) \<Rightarrow>
                   (None, if \<not> ok then say (WarnFallbackFailed src_path) s2 else s2)))"

definition mapping ::
  "path list \<times> path list \<times> path list \<Rightarrow> (split \<times> path list) list" where
  "mapping t = (case t of (tr, va, te) \<Rightarrow> [(Train, tr), (Val, va), (Test, te)])"

definition class_images ::
  "'g random_lib \<Rightarrow> env \<Rightarrow> args \<Rightarrow> string \<times> path list \<Rightarrow> state \<Rightarrow> py_error option \<times> state"
where
  "class_images R E a cf s =
     (case split_list R (snd cf) default_ratios (args_seed a) of
        Inl e \<Rightarrow> (Some e, s)
      | Inr t \<Rightarrow>
          for_each (\<lambda>m. for_each (item_images E a (fst cf) (fst m)) (snd m)) (mapping t) s)"

definition class_videos ::
  "'g random_lib \<Rightarrow> env \<Rightarrow> args \<Rightarrow> bool \<Rightarrow> string \<times> path list \<Rightarrow> state
     \<Rightarrow> py_error option \<times> state" where
  "class_videos R E a use_ffmpeg cf s =
     (case split_list_videos R (snd cf) default_ratios (args_seed a) of
        Inl e \<Rightarrow> (Some e, s)
      | Inr t \<Rightarrow>
          for_each (\<lambda>m. for_each (item_videos E a use_ffmpeg (fst cf) (fst m)) (snd m))
            (mapping t) s)"

definition total_of :: "manifest \<Rightarrow> nat" where
  "total_of fbc = sum_list (map (\<lambda>cf. length (snd cf)) fbc)"

definition counts_of :: "state \<Rightarrow> nat \<times> nat \<times> nat" where
  "counts_of s = (counts s Train, counts s Val, counts s Test)"

definition start :: "state \<Rightarrow> state" where
  \<comment> \<open>\<^verbatim>\<open>counts = {"train":0,"val":0,"test":0}\<close>\<close>
  "start s = s\<lparr>counts := (\<lambda>sp. 0), plan := []\<rparr>"

text \<open>
  \<^verbatim>\<open>main\<close> of the image script. The source tree is \<open>None\<close> when \<^verbatim>\<open>src_root\<close> does not exist.
\<close>

definition main_images ::
  "'g random_lib \<Rightarrow> env \<Rightarrow> args \<Rightarrow> fsnode option \<Rightarrow> state \<Rightarrow> py_error option \<times> state" where
  "main_images R E a tree s =
     (case tree of
        None \<Rightarrow> (Some (SystemExit 1), say (SourceRootNotFound (args_src_root a)) s)
      | Some t \<Rightarrow>
          (case gather_image_files (args_src_root a) t of
             Inl e \<Rightarrow> (Some e, say GatheringImageFiles s)
           | Inr fbc \<Rightarrow>
               (case for_each (class_images R E a) fbc
                       (start (say (Found (total_of fbc) (length fbc)) (say GatheringImageFiles s))) of
                  (Some e, s') \<Rightarrow> (Some e, s')
                | (None, s') \<Rightarrow>
                    (None, say (OutputStructureExample (args_output_root a @ [''train'', ''images'']))
                             (say (Done (counts_of s')) s')))))"

text \<open>\<^verbatim>\<open>main\<close> of the video script: the probe runs once, before the loop over the classes.\<close>

definition main_videos ::
  "'g random_lib \<Rightarrow> env \<Rightarrow> args \<Rightarrow> fsnode option \<Rightarrow> state \<Rightarrow> py_error option \<times> state" where
  "main_videos R E a tree s =
     (case tree of
        None \<Rightarrow> (Some (SystemExit 1), say (SourceRootNotFound (args_src_root a)) s)
      | Some t \<Rightarrow>
          (case gather_video_files (args_src_root a) t of
             Inl e \<Rightarrow> (Some e, s)
           | Inr fbc \<Rightarrow>
               (case ffmpeg_available E (say (Found (total_of fbc) (length fbc)) s) of
                  (use_ffmpeg, s1) \<Rightarrow>
                    (case for_each (class_videos R E a use_ffmpeg) fbc
                            (start (say (if use_ffmpeg then UsingFfmpeg else FfmpegNotAvailable) s1)) of
                       (Some e, s') \<Rightarrow> (Some e, s')
                     | (None, s') \<Rightarrow> (None, say (Done (counts_of s')) s')))))"

text \<open>
  Which calls a run of the video script may make once the backend is chosen: creating
  directories and calling the chosen backend, nothing else.
\<close>

fun backend_only :: "bool \<Rightarrow> call \<Rightarrow> bool" where
  "backend_only u Probe = False"
| "backend_only u (Mkdir d) = True"
| "backend_only u (Resize x y) = False"
| "backend_only u (Ffmpeg x y) = u"
| "backend_only u (OpenCV x y) = (\<not> u)"

text \<open>Auxiliary notions for the proofs about the loops.\<close>

definition calls_ext :: "bool \<Rightarrow> state \<Rightarrow> state \<Rightarrow> bool" where
  \<comment> \<open>from \<open>s\<close> to \<open>s'\<close> only calls allowed by \<open>backend_only u\<close> were added\<close>
  "calls_ext u s s' = (\<exists>cs. calls s' = calls s @ cs \<and> list_all (backend_only u) cs)"

definition entry :: "path \<Rightarrow> string \<Rightarrow> string \<Rightarrow> split \<Rightarrow> path \<Rightarrow> split \<times> path \<times> path" where
  \<comment> \<open>the triple that the loop computes for one item\<close>
  "entry out kind class_label sp src_path =
     (sp, src_path, dst_path_of out sp kind class_label src_path)"

definition tally :: "(split \<times> path \<times> path) list \<Rightarrow> split \<Rightarrow> nat" where
  \<comment> \<open>how many triples of the list belong to the split\<close>
  "tally pl sp = length (filter (\<lambda>e. fst e = sp) pl)"

definition grows :: "bool \<Rightarrow> state \<Rightarrow> (split \<times> path \<times> path) list \<Rightarrow> state \<Rightarrow> bool" where
  \<comment> \<open>from \<open>s\<close> to \<open>s'\<close> the triples \<open>new\<close> were planned and counted; when \<open>d\<close> holds, the
      outside world was left alone\<close>
  "grows d s new s' =
     (plan s' = plan s @ new
      \<and> (\<forall>k. counts s' k = counts s k + tally new k)
      \<and> (d \<longrightarrow> dirs s' = dirs s \<and> files s' = files s \<and> calls s' = calls s))"

definition class_plan ::
  "path \<Rightarrow> string \<Rightarrow> string \<Rightarrow> path list \<times> path list \<times> path list
     \<Rightarrow> (split \<times> path \<times> path) list" where
  \<comment> \<open>the triples of one class, in the order of the loop\<close>
  "class_plan out kind class_label t =
     (case t of (tr, va, te) \<Rightarrow>
        map (entry out kind class_label Train) tr
        @ map (entry out kind class_label Val) va
        @ map (entry out kind class_label Test) te)"

text \<open>
  The source tree of scenario A: one class \<^verbatim>\<open>Pose/Wrong\<close> with ten images.
\<close>

definition scenario_A_names :: "string list" where
  "scenario_A_names =
     [''img0.jpg'', ''img1.jpg'', ''img2.jpg'', ''img3.jpg'', ''img4.jpg'',
      ''img5.jpg'', ''img6.jpg'', ''img7.jpg'', ''img8.jpg'', ''img9.jpg'']"

definition scenario_A :: fsnode where
  "scenario_A =
     Dir [(''Pose'', Dir [(''Wrong'', Dir (map (\<lambda>n. (n, File)) scenario_A_names))])]"

text \<open>
  The source tree of scenario C: one class with five videos. The other inputs of the
  sample runs: a state with nothing in it, the arguments of a dry run and of a real run
  with seed 42, and a host without \<^verbatim>\<open>ffmpeg\<close> on which OpenCV is installed, opens every
  video and reads three frames from each.
\<close>

definition scenario_C :: fsnode where
  "scenario_C =
     Dir [(''Tree'', Dir (map (\<lambda>n. (n, File))
            [''v1.mp4'', ''v2.mp4'', ''v3.mp4'', ''v4.mp4'', ''v5.mp4'']))]"

definition empty_state :: state where
  "empty_state =
     \<lparr> dirs = {}, files = {}, console = [], calls = [], counts = (\<lambda>sp. 0), plan = [] \<rparr>"

definition dry_args :: args where
  "dry_args =
     \<lparr> args_src_root = [''yoga''], args_output_root = [''dataset_processed''],
       args_seed = 42, args_dry_run = True \<rparr>"

definition real_args :: args where
  "real_args =
     \<lparr> args_src_root = [''yoga''], args_output_root = [''dataset_processed''],
       args_seed = 42, args_dry_run = False \<rparr>"

definition fallback_env :: env where
  "fallback_env =
     \<lparr> mkdir_fails = (\<lambda>d. False), image_fails = (\<lambda>x y. False),
       ffmpeg_installed = False, ffmpeg_exit_ok = (\<lambda>x y. True),
       cv2_installed = True, cv2_opens = (\<lambda>x. True), cv2_frames = (\<lambda>x. 3) \<rparr>"

definition readonly_env :: env where
  \<comment> \<open>as \<open>fallback_env\<close>, but no directory can be created\<close>
  "readonly_env = fallback_env\<lparr>mkdir_fails := (\<lambda>d. True)\<rparr>"

definition sample_src :: path where
  "sample_src = [''yoga'', ''Pose'', ''a.jpg'']"

definition sample_dst :: path where
  "sample_dst = [''dataset_processed'', ''train'', ''images'', ''Pose'', ''a.jpg'']"

definition flat_tree :: fsnode where
  \<comment> \<open>media files directly in the source root, beside a subdirectory\<close>
  "flat_tree =
     Dir [(''a.JPG'', File), (''notes.txt'', File), (''clip.mp4'', File),
          (''sub'', Dir [(''c.png'', File)])]"

section \<open>Rounding is monotone; the shuffle permutes; the cuts partition\<close>

lemma bit_length_0: "bit_length 0 = 0"
  by (simp add: bit_length.simps [of 0])

lemma bit_length_1: "bit_length (Suc 0) = Suc 0"
  by (simp add: bit_length.simps [of "Suc 0"] bit_length_0)

lemma bit_length_Bit0: "bit_length (numeral (Num.Bit0 k)) = Suc (bit_length (numeral k))"
  by (simp add: bit_length.simps [of "numeral (Num.Bit0 k)"])

lemma bit_length_Bit1: "bit_length (numeral (Num.Bit1 k)) = Suc (bit_length (numeral k))"
  by (simp add: bit_length.simps [of "numeral (Num.Bit1 k)"])

lemmas bit_length_numeral = bit_length_0 bit_length_1 bit_length_Bit0 bit_length_Bit1

lemmas fl_eval =
  fl_round_def round_even_def fl_of_int_def Let_def bit_length_numeral
  f_0_7_def f_0_2_def f_0_1_def f_0_5_def f_0_3_def f_1_0_def f_1em6_def

lemma bit_length_upper: "n < 2 ^ bit_length n"
proof (induction n rule: bit_length.induct)
  case (1 n)
  show ?case
  proof (cases "n = 0")
    case True
    then show ?thesis by (simp add: bit_length.simps)
  next
    case False
    with 1 have "n div 2 < 2 ^ bit_length (n div 2)" by simp
    then have "n < 2 * 2 ^ bit_length (n div 2)" by linarith
    with False show ?thesis by (simp add: bit_length.simps [of n])
  qed
qed

lemma bit_length_lower: "0 < n \<Longrightarrow> 2 ^ (bit_length n - 1) \<le> n"
proof (induction n rule: bit_length.induct)
  case (1 n)
  show ?case
  proof (cases "n div 2 = 0")
    case True
    with 1 show ?thesis by (simp add: bit_length.simps [of n] bit_length.simps [of 0])
  next
    case False
    with 1 have ih: "2 ^ (bit_length (n div 2) - 1) \<le> n div 2" by simp
    from False have "bit_length (n div 2) \<noteq> 0" by (simp add: bit_length.simps [of "n div 2"])
    then obtain k where k: "bit_length (n div 2) = Suc k" by (cases "bit_length (n div 2)") auto
    with ih have "2 * 2 ^ k \<le> n" by simp
    with 1 k show ?thesis by (simp add: bit_length.simps [of n])
  qed
qed

lemma bit_length_mono: "a \<le> b \<Longrightarrow> bit_length a \<le> bit_length b"
proof (induction b arbitrary: a rule: bit_length.induct)
  case (1 b)
  show ?case
  proof (cases "a = 0")
    case True
    then show ?thesis by (simp add: bit_length.simps [of 0])
  next
    case False
    with 1 have "b \<noteq> 0" by simp
    moreover from 1 have "a div 2 \<le> b div 2" by (simp add: div_le_mono)
    ultimately have "bit_length (a div 2) \<le> bit_length (b div 2)" using 1 by simp
    with False \<open>b \<noteq> 0\<close> show ?thesis by (simp add: bit_length.simps [of a] bit_length.simps [of b])
  qed
qed

lemma round_even_lower: "a div 2 ^ s \<le> round_even a s"
  by (simp add: round_even_def Let_def)

lemma round_even_upper: "round_even a s \<le> a div 2 ^ s + 1"
  by (simp add: round_even_def Let_def)

lemma round_even_mono:
  assumes "a \<le> b"
  shows "round_even a s \<le> round_even b s"
proof -
  have q: "a div 2 ^ s \<le> b div 2 ^ s" using assms by (rule div_le_mono)
  show ?thesis
  proof (cases "a div 2 ^ s = b div 2 ^ s")
    case True
    have "a div 2 ^ s * 2 ^ s + a mod 2 ^ s \<le> b div 2 ^ s * 2 ^ s + b mod 2 ^ s"
      using assms by (simp only: div_mult_mod_eq)
    with True have "a mod 2 ^ s \<le> b mod 2 ^ s" by simp
    with True show ?thesis by (auto simp: round_even_def Let_def)
  next
    case False
    with q have "a div 2 ^ s + 1 \<le> b div 2 ^ s" by simp
    with round_even_upper [of a s] round_even_lower [of b s] show ?thesis by linarith
  qed
qed

lemma round_even_zero: "round_even a 0 = a"
  by (simp add: round_even_def)

lemma rnd_upper: "rnd a \<le> 2 ^ bit_length a"
proof -
  let ?l = "bit_length a" and ?s = "bit_length a - 53"
  have "a < 2 ^ ?s * 2 ^ (?l - ?s)"
    using bit_length_upper [of a] by (simp flip: power_add)
  then have "a div 2 ^ ?s < 2 ^ (?l - ?s)"
    by (simp add: less_mult_imp_div_less mult.commute)
  with round_even_upper [of a ?s] have "round_even a ?s \<le> 2 ^ (?l - ?s)" by linarith
  then have "round_even a ?s * 2 ^ ?s \<le> 2 ^ (?l - ?s) * 2 ^ ?s" by (rule mult_le_mono1)
  then show ?thesis by (simp add: rnd_def flip: power_add)
qed

lemma rnd_lower:
  assumes "0 < b"
  shows "2 ^ (bit_length b - 1) \<le> rnd b"
proof -
  let ?l = "bit_length b" and ?s = "bit_length b - 53"
  have le: "?s \<le> ?l - 1" by simp
  have "(2::nat) ^ (?l - 1) = 2 ^ (?l - 1 - ?s) * 2 ^ ?s"
    using le by (simp flip: power_add)
  moreover have "(2::nat) ^ (?l - 1) \<le> b" using assms by (rule bit_length_lower)
  ultimately have "2 ^ (?l - 1 - ?s) * 2 ^ ?s \<le> b" by simp
  then have "2 ^ (?l - 1 - ?s) \<le> b div 2 ^ ?s"
    by (simp add: less_eq_div_iff_mult_less_eq)
  with round_even_lower [of b ?s] have "2 ^ (?l - 1 - ?s) \<le> round_even b ?s" by linarith
  then have "2 ^ (?l - 1 - ?s) * 2 ^ ?s \<le> round_even b ?s * 2 ^ ?s" by (rule mult_le_mono1)
  moreover have "?l - 1 - ?s + ?s = ?l - 1" using le by simp
  ultimately show ?thesis by (simp only: rnd_def flip: power_add)
qed

lemma rnd_mono:
  assumes "a \<le> b"
  shows "rnd a \<le> rnd b"
proof (cases "bit_length a = bit_length b")
  case True
  then show ?thesis using round_even_mono [OF assms] by (simp add: rnd_def)
next
  case False
  with bit_length_mono [OF assms] have lt: "bit_length a < bit_length b" by simp
  then have "0 < bit_length b" by simp
  then have "0 < b" by (cases "b = 0") (simp_all add: bit_length.simps [of 0])
  from lt have "(2::nat) ^ bit_length a \<le> 2 ^ (bit_length b - 1)"
    by (intro power_increasing) simp_all
  with rnd_upper [of a] rnd_lower [OF \<open>0 < b\<close>] show ?thesis by linarith
qed

lemma trunc_nat_mono: "v \<le> w \<Longrightarrow> trunc_nat v e \<le> trunc_nat w e"
  by (simp add: trunc_nat_def div_le_mono)

lemma fl_round_nat:
  "fl_round (int a) e = Fl (int (round_even a (bit_length a - 53))) (e + int (bit_length a - 53))"
proof (cases "a = 0")
  case True
  then show ?thesis by (simp add: fl_round_def Let_def round_even_def bit_length.simps [of 0])
next
  case False
  then show ?thesis by (simp add: fl_round_def Let_def)
qed

lemma fl_trunc_nat:
  "fl_trunc (Fl (int q) (e + int s)) = int (trunc_nat (q * 2 ^ s) e)"
proof -
  consider "0 \<le> e" | "e < 0" "0 \<le> e + int s" | "e + int s < 0" by linarith
  then show ?thesis
  proof cases
    case 1
    then have "nat (e + int s) = nat e + s" by simp
    with 1 show ?thesis by (simp add: trunc_nat_def power_add mult_ac)
  next
    case 2
    then have "s = nat (e + int s) + nat (- e)" by simp
    then have "(2::nat) ^ s = 2 ^ nat (e + int s) * 2 ^ nat (- e)"
      by (metis power_add)
    then have "q * 2 ^ s = q * 2 ^ nat (e + int s) * 2 ^ nat (- e)"
      by (simp only: mult.assoc)
    then have "q * 2 ^ s div 2 ^ nat (- e) = q * 2 ^ nat (e + int s)"
      by (simp only: nonzero_mult_div_cancel_right power_eq_0_iff) simp
    with 2 show ?thesis by (simp add: trunc_nat_def)
  next
    case 3
    then have "nat (- e) = s + nat (- (e + int s))" by simp
    then have "(2::nat) ^ nat (- e) = 2 ^ s * 2 ^ nat (- (e + int s))"
      by (metis power_add)
    then have "q * 2 ^ s div 2 ^ nat (- e) = q div 2 ^ nat (- (e + int s))"
      by (simp add: mult.commute)
    moreover have "sgn (int q) * (int q div 2 ^ nat (- (e + int s))) = int (q div 2 ^ nat (- (e + int s)))"
      by (cases "q = 0") (simp_all add: zdiv_int)
    ultimately show ?thesis using 3 by (simp add: trunc_nat_def)
  qed
qed

lemma fl_trunc_round: "fl_trunc (fl_round (int a) e) = int (trunc_nat (rnd a) e)"
  by (simp only: fl_round_nat fl_trunc_nat rnd_def)

lemma fl_of_int_nat:
  "fl_of_int (int n) = Fl (int (round_even n (bit_length n - 53))) (int (bit_length n - 53))"
  by (simp add: fl_of_int_def fl_round_nat)

lemma sum_0_7_0_2: "fl_add f_0_7 f_0_2 = Fl 8106479329266892 (- 53)"
  by (simp add: fl_eval)

lemma n1_of_default:
  "n1_of default_ratios n =
     int (trunc_nat (rnd (round_even n (bit_length n - 53) * 6305039478318694))
            (int (bit_length n - 53) - 53))"
proof -
  have "fl_mul (fl_of_int (int n)) f_0_7 =
        fl_round (int (round_even n (bit_length n - 53) * 6305039478318694))
          (int (bit_length n - 53) - 53)"
    by (simp add: fl_of_int_nat f_0_7_def)
  then show ?thesis
    by (simp only: n1_of_def default_ratios_def prod.case fl_trunc_round)
qed

lemma n2_of_default:
  "n2_of default_ratios n =
     int (trunc_nat (rnd (round_even n (bit_length n - 53) * 8106479329266892))
            (int (bit_length n - 53) - 53))"
proof -
  have "fl_mul (fl_of_int (int n)) (fl_add f_0_7 f_0_2) =
        fl_round (int (round_even n (bit_length n - 53) * 8106479329266892))
          (int (bit_length n - 53) - 53)"
    by (simp add: fl_of_int_nat sum_0_7_0_2)
  then show ?thesis
    by (simp only: n2_of_def default_ratios_def prod.case fl_trunc_round)
qed

lemma n1_le_n2: "n1_of default_ratios n \<le> n2_of default_ratios n"
proof -
  have "round_even n (bit_length n - 53) * 6305039478318694
      \<le> round_even n (bit_length n - 53) * 8106479329266892"
    by simp
  then show ?thesis
    by (simp only: n1_of_default n2_of_default of_nat_le_iff rnd_mono trunc_nat_mono)
qed

lemma n1_nonneg: "0 \<le> n1_of default_ratios n"
  by (simp only: n1_of_default of_nat_0_le_iff)

lemma ratios_ok_default: "ratios_ok default_ratios"
  by (simp add: ratios_ok_def default_ratios_def py_sum_def fl_eval)

lemma shuffle_loop_perm:
  assumes rb: "\<forall>g n. 0 < n \<longrightarrow> fst (rb g n) < n"
  shows "k < length xs \<or> k = 0 \<Longrightarrow>
         \<exists>ys. shuffle_loop rb k g xs = (None, ys) \<and> mset ys = mset xs"
proof (induction k arbitrary: g xs)
  case 0
  then show ?case by simp
next
  case (Suc k)
  obtain j g' where r: "rb g (Suc (Suc k)) = (j, g')" by (cases "rb g (Suc (Suc k))")
  from Suc.prems have i: "Suc k < length xs" by simp
  from rb have "fst (rb g (Suc (Suc k))) < Suc (Suc k)" by simp
  with r i have j: "j < length xs" by simp
  let ?xs = "xs[Suc k := xs ! j, j := xs ! Suc k]"
  from i have "k < length ?xs \<or> k = 0" by simp
  from Suc.IH [OF this] obtain ys
    where ys: "shuffle_loop rb k g' ?xs = (None, ys)" "mset ys = mset ?xs" by blast
  have "mset ?xs = mset xs" by (rule mset_swap [OF j i])
  with ys r i j show ?case by simp
qed

lemma shuffle_perm:
  assumes "rng_ok R"
  shows "\<exists>ys. shuffle R g xs = (None, ys) \<and> mset ys = mset xs"
proof -
  from assms have rb: "\<forall>g n. 0 < n \<longrightarrow> fst (randbelow R g n) < n"
    by (simp add: rng_ok_def)
  have "length xs - 1 < length xs \<or> length xs - 1 = 0" by (cases xs) simp_all
  from shuffle_loop_perm [OF rb this] show ?thesis by (simp add: shuffle_def)
qed

lemma slices_partition:
  assumes "0 \<le> a" "a \<le> b"
  shows "py_slice_to ys a @ py_slice ys a b @ py_slice_from ys b = ys"
proof -
  let ?n = "length ys"
  let ?A = "min (nat a) ?n" and ?B = "min (nat b) ?n"
  from assms have ia: "py_index a ?n = ?A" and ib: "py_index b ?n = ?B"
    by (simp_all add: py_index_def)
  from assms have "?A \<le> ?B" by simp
  then have "take ?A ys = take ?A (take ?B ys)" by (simp add: min_absorb1)
  then have "take ?A ys @ drop ?A (take ?B ys) = take ?B ys"
    by (simp only: append_take_drop_id)
  then have "take ?A ys @ drop ?A (take ?B ys) @ drop ?B ys = ys"
    by (simp only: append_assoc [symmetric] append_take_drop_id)
  then show ?thesis by (simp only: py_slice_to_def py_slice_def py_slice_from_def ia ib Let_def)
qed

lemma cut_default_partition:
  assumes "cut default_ratios ys = (tr, va, te)"
  shows "tr @ va @ te = ys"
proof -
  let ?n = "length ys"
  have "py_slice_to ys (n1_of default_ratios ?n)
        @ py_slice ys (n1_of default_ratios ?n) (n2_of default_ratios ?n)
        @ py_slice_from ys (n2_of default_ratios ?n) = ys"
    by (rule slices_partition [OF n1_nonneg n1_le_n2])
  with assms show ?thesis by (auto simp: cut_def Let_def)
qed

lemma split_list_default:
  assumes "rng_ok R"
  shows "\<exists>ys. mset ys = mset items \<and> split_list R items default_ratios seed = Inr (cut default_ratios ys)"
proof -
  from shuffle_perm [OF assms] obtain ys
    where "shuffle R (seed_gen R seed) items = (None, ys)" "mset ys = mset items" by blast
  then show ?thesis by (auto simp: split_list_def ratios_ok_default)
qed

lemma split_list_videos_eq:
  "ratios_ok rs \<Longrightarrow> split_list_videos R items rs seed = split_list R items rs seed"
  by (simp add: split_list_def split_list_videos_def)

lemma sizes_cut:
  "sizes (cut rs ys) =
     (length (py_slice_to ys (n1_of rs (length ys))),
      length (py_slice ys (n1_of rs (length ys)) (n2_of rs (length ys))),
      length (py_slice_from ys (n2_of rs (length ys))))"
  by (simp add: sizes_def cut_def Let_def)

lemma rng_ok_lcg: "rng_ok lcg_random"
  by (simp add: rng_ok_def lcg_random_def)

lemma n1_30: "n1_of default_ratios 30 = 21"
  by (simp add: n1_of_def default_ratios_def fl_eval)

lemma n2_30: "n2_of default_ratios 30 = 26"
  by (simp add: n2_of_def default_ratios_def fl_eval)

lemma cut_eval:
  "length ys = n \<Longrightarrow> n1_of rs n = a \<Longrightarrow> n2_of rs n = b
   \<Longrightarrow> cut rs ys = (py_slice_to ys a, py_slice ys a b, py_slice_from ys b)"
  by (simp add: cut_def Let_def)

section \<open>The loops of the pipelines\<close>

lemma for_each_invariant:
  assumes "P s"
    and "\<And>x s r s'. x \<in> set xs \<Longrightarrow> P s \<Longrightarrow> body x s = (r, s') \<Longrightarrow> P s'"
  shows "P (snd (for_each body xs s))"
  using assms
proof (induction xs arbitrary: s)
  case Nil
  then show ?case by simp
next
  case (Cons x xs)
  obtain r s1 where b: "body x s = (r, s1)" by (cases "body x s")
  with Cons.prems have p1: "P s1" by (meson list.set_intros(1))
  show ?case
  proof (cases r)
    case None
    have "P (snd (for_each body xs s1))"
      by (rule Cons.IH [OF p1]) (meson Cons.prems(2) list.set_intros(2))
    with b None show ?thesis by simp
  next
    case (Some e)
    with b p1 show ?thesis by simp
  qed
qed

lemma calls_ext_refl: "calls_ext u s s"
  by (simp add: calls_ext_def)

lemma calls_ext_trans: "calls_ext u s s1 \<Longrightarrow> calls_ext u s1 s2 \<Longrightarrow> calls_ext u s s2"
  by (auto simp: calls_ext_def)

lemma calls_ext_same: "calls s' = calls s \<Longrightarrow> calls_ext u s s'"
  by (simp add: calls_ext_def)

lemma calls_ext_step:
  "calls_ext u s s1 \<Longrightarrow> calls s2 = calls s1 @ cs \<Longrightarrow> list_all (backend_only u) cs
   \<Longrightarrow> calls_ext u s s2"
  by (auto simp: calls_ext_def)

lemma calls_mkdir_parents:
  "calls (snd (mkdir_parents E d s)) = calls s @ [Mkdir d]"
  by (simp add: mkdir_parents_def called_def)

lemma calls_reencode_with_ffmpeg:
  "\<exists>cs. calls (snd (reencode_with_ffmpeg E src dst s)) = calls s @ cs
        \<and> list_all (backend_only True) cs"
  by (auto simp: reencode_with_ffmpeg_def mkdir_parents_def called_def say_def Let_def)

lemma calls_reencode_with_opencv:
  "\<exists>cs. calls (snd (reencode_with_opencv E src dst s)) = calls s @ cs
        \<and> list_all (backend_only False) cs"
  by (auto simp: reencode_with_opencv_def mkdir_parents_def called_def say_def Let_def
      split: option.splits)

lemma calls_item_videos:
  "\<exists>cs. calls (snd (item_videos E a u cl sp src s)) = calls s @ cs
        \<and> list_all (backend_only u) cs"
proof -
  let ?dst = "dst_path_of (args_output_root a) sp ''videos'' cl src"
  let ?s1 = "planned sp src ?dst s"
  have c1: "calls ?s1 = calls s" by (simp add: planned_def)
  show ?thesis
  proof (cases "args_dry_run a")
    case True
    then show ?thesis by (simp add: item_videos_def Let_def c1)
  next
    case False
    show ?thesis
    proof (cases u)
      case True
      from calls_reencode_with_ffmpeg [of E src ?dst ?s1] obtain cs where
        "calls (snd (reencode_with_ffmpeg E src ?dst ?s1)) = calls s @ cs"
        "list_all (backend_only True) cs" by (auto simp: c1)
      with True False show ?thesis
        by (cases "reencode_with_ffmpeg E src ?dst ?s1")
           (auto simp: item_videos_def Let_def say_def split: sum.splits)
    next
      case u: False
      from calls_reencode_with_opencv [of E src ?dst ?s1] obtain cs where
        "calls (snd (reencode_with_opencv E src ?dst ?s1)) = calls s @ cs"
        "list_all (backend_only False) cs" by (auto simp: c1)
      with u False show ?thesis
        by (cases "reencode_with_opencv E src ?dst ?s1")
           (auto simp: item_videos_def Let_def say_def split: sum.splits)
    qed
  qed
qed

lemma calls_ext_item_videos: "calls_ext u s (snd (item_videos E a u cl sp src s))"
  using calls_item_videos [of E a u cl sp src s] by (simp add: calls_ext_def)

lemma calls_ext_items:
  "calls_ext u s (snd (for_each (item_videos E a u cl sp) xs s))"
proof (rule for_each_invariant [where P = "calls_ext u s"])
  show "calls_ext u s s" by (rule calls_ext_refl)
next
  fix x s1 r s2
  assume "calls_ext u s s1" "item_videos E a u cl sp x s1 = (r, s2)"
  with calls_ext_item_videos [of u s1 E a cl sp x] show "calls_ext u s s2"
    by (auto intro: calls_ext_trans)
qed

lemma calls_ext_class_videos: "calls_ext u s (snd (class_videos R E a u cf s))"
proof (cases "split_list_videos R (snd cf) default_ratios (args_seed a)")
  case (Inl e)
  then show ?thesis by (simp add: class_videos_def calls_ext_refl)
next
  case (Inr t)
  have "calls_ext u s
          (snd (for_each (\<lambda>m. for_each (item_videos E a u (fst cf) (fst m)) (snd m)) (mapping t) s))"
  proof (rule for_each_invariant [where P = "calls_ext u s"])
    show "calls_ext u s s" by (rule calls_ext_refl)
  next
    fix m s1 r s2
    assume "calls_ext u s s1"
      "for_each (item_videos E a u (fst cf) (fst m)) (snd m) s1 = (r, s2)"
    with calls_ext_items [of u s1 E a "fst cf" "fst m" "snd m"] show "calls_ext u s s2"
      by (auto intro: calls_ext_trans)
  qed
  with Inr show ?thesis by (simp add: class_videos_def)
qed

lemma calls_ext_classes:
  "calls_ext u s (snd (for_each (class_videos R E a u) fbc s))"
proof (rule for_each_invariant [where P = "calls_ext u s"])
  show "calls_ext u s s" by (rule calls_ext_refl)
next
  fix x s1 r s2
  assume "calls_ext u s s1" "class_videos R E a u x s1 = (r, s2)"
  with calls_ext_class_videos [of u s1 R E a x] show "calls_ext u s s2"
    by (auto intro: calls_ext_trans)
qed

lemma walk_prefix:
  "take (length base) rootp = base \<Longrightarrow> \<forall>x \<in> set (walk rootp t). take (length base) (fst x) = base"
  "take (length base) rootp = base
   \<Longrightarrow> \<forall>x \<in> set (walk_entries rootp es). take (length base) (fst x) = base"
proof (induction rootp t and rootp es rule: walk_walk_entries.induct)
  case (1 rootp)
  then show ?case by simp
next
  case (2 rootp es)
  then show ?case by simp
next
  case (3 rootp)
  then show ?case by simp
next
  case (4 rootp e es)
  from 4(3) have "take (length base) (rootp @ [fst e]) = base"
    by (metis append_eq_conv_conj append.assoc take_append take_all_iff
        append_take_drop_id)
  with 4 show ?case by auto
qed

lemma gather_loop_ok:
  "\<forall>x \<in> set ws. take (length src) (fst x) = src \<Longrightarrow> \<exists>d'. gather_loop P src ws d = Inr d'"
proof (induction ws arbitrary: d)
  case Nil
  then show ?case by simp
next
  case (Cons w ws)
  obtain rootp ds fs where w: "w = (rootp, ds, fs)" by (cases w)
  with Cons.prems have "relative_to rootp src = Inr (drop (length src) rootp)"
    by (simp add: relative_to_def)
  with Cons w show ?case by (simp add: Let_def)
qed

lemma gather_video_files_ok: "\<exists>fbc. gather_video_files src t = Inr fbc"
  unfolding gather_video_files_def
  by (rule gather_loop_ok) (rule walk_prefix(1), simp)

lemma gather_image_files_ok: "\<exists>fbc. gather_image_files src t = Inr fbc"
  unfolding gather_image_files_def
  by (rule gather_loop_ok) (rule walk_prefix(1), simp)

lemma tally_Nil: "tally [] k = 0"
  by (simp add: tally_def)

lemma tally_append: "tally (xs @ ys) k = tally xs k + tally ys k"
  by (simp add: tally_def)

lemma tally_entries:
  "tally (map (entry out kind cl sp) xs) k = (if k = sp then length xs else 0)"
  by (induction xs) (auto simp: tally_def entry_def)

lemma grows_refl: "grows d s [] s"
  by (simp add: grows_def tally_Nil)

lemma grows_trans: "grows d s n1 s1 \<Longrightarrow> grows d s1 n2 s2 \<Longrightarrow> grows d s (n1 @ n2) s2"
  by (auto simp: grows_def tally_append)

lemma grows_planned:
  "grows d s [entry out kind cl sp src] (planned sp src (dst_path_of out sp kind cl src) s)"
  by (auto simp: grows_def planned_def entry_def tally_def)

lemma item_images_quiet:
  assumes "args_dry_run a \<or> (\<forall>p. \<not> mkdir_fails E p)"
  shows "\<exists>s'. item_images E a cl sp src s = (None, s')
            \<and> grows (args_dry_run a) s [entry (args_output_root a) ''images'' cl sp src] s'"
proof (cases "args_dry_run a")
  case True
  then show ?thesis
    using grows_planned [of True s "args_output_root a" "''images''" cl sp src]
    by (simp add: item_images_def Let_def)
next
  case False
  with assms have "\<forall>p. \<not> mkdir_fails E p" by simp
  with False show ?thesis
    by (auto simp: item_images_def Let_def resize_and_save_def mkdir_parents_def called_def
        say_def grows_def planned_def entry_def tally_def)
qed

lemma item_videos_dry:
  assumes "args_dry_run a"
  shows "\<exists>s'. item_videos E a u cl sp src s = (None, s')
            \<and> grows True s [entry (args_output_root a) ''videos'' cl sp src] s'"
  using assms grows_planned [of True s "args_output_root a" "''videos''" cl sp src]
  by (simp add: item_videos_def Let_def)

lemma for_each_grows:
  assumes "\<And>x s. \<exists>s'. body x s = (None, s') \<and> grows d s [e x] s'"
  shows "\<exists>s'. for_each body xs s = (None, s') \<and> grows d s (map e xs) s'"
proof (induction xs arbitrary: s)
  case Nil
  then show ?case by (simp add: grows_refl)
next
  case (Cons x xs)
  from assms obtain s1 where s1: "body x s = (None, s1)" "grows d s [e x] s1" by blast
  from Cons.IH obtain s2 where
    s2: "for_each body xs s1 = (None, s2)" "grows d s1 (map e xs) s2" by blast
  from grows_trans [OF s1(2) s2(2)] s1(1) s2(1) show ?case by simp
qed

lemma mapping_grows:
  assumes "\<And>sp x s. \<exists>s'. item sp x s = (None, s') \<and> grows d s [entry out kind cl sp x] s'"
  shows "\<exists>s'. for_each (\<lambda>m. for_each (item (fst m)) (snd m)) (mapping t) s = (None, s')
            \<and> grows d s (class_plan out kind cl t) s'"
proof -
  obtain tr va te where t: "t = (tr, va, te)" by (cases t)
  have step: "\<exists>s'. for_each (item sp) xs s = (None, s')
                  \<and> grows d s (map (entry out kind cl sp) xs) s'" for sp xs s
    by (rule for_each_grows) (rule assms)
  from step obtain s1 where
    s1: "for_each (item Train) tr s = (None, s1)"
        "grows d s (map (entry out kind cl Train) tr) s1" by blast
  from step obtain s2 where
    s2: "for_each (item Val) va s1 = (None, s2)"
        "grows d s1 (map (entry out kind cl Val) va) s2" by blast
  from step obtain s3 where
    s3: "for_each (item Test) te s2 = (None, s3)"
        "grows d s2 (map (entry out kind cl Test) te) s3" by blast
  from grows_trans [OF s1(2) grows_trans [OF s2(2) s3(2)]] s1(1) s2(1) s3(1) t
  show ?thesis by (simp add: mapping_def class_plan_def)
qed

lemma srcs_class_plan:
  "map (fst \<circ> snd) (class_plan out kind cl (tr, va, te)) = tr @ va @ te"
  by (simp add: class_plan_def entry_def comp_def)

lemma split_list_default_cut:
  assumes "rng_ok R"
  shows "\<exists>ys. mset ys = mset items
            \<and> split_list R items default_ratios sd = Inr (cut default_ratios ys)
            \<and> split_list_videos R items default_ratios sd = Inr (cut default_ratios ys)
            \<and> map (fst \<circ> snd) (class_plan out kind cl (cut default_ratios ys)) = ys"
proof -
  from split_list_default [OF assms, of items sd] obtain ys where
    ys: "mset ys = mset items" "split_list R items default_ratios sd = Inr (cut default_ratios ys)"
    by blast
  obtain tr va te where c: "cut default_ratios ys = (tr, va, te)"
    by (cases "cut default_ratios ys")
  from cut_default_partition [OF c] c ys show ?thesis
    by (auto simp: srcs_class_plan split_list_videos_eq [OF ratios_ok_default])
qed

lemma class_images_quiet:
  assumes "rng_ok R" "args_dry_run a \<or> (\<forall>p. \<not> mkdir_fails E p)"
  shows "\<exists>ys s'. mset ys = mset (snd cf)
            \<and> class_images R E a cf s = (None, s')
            \<and> grows (args_dry_run a) s
                 (class_plan (args_output_root a) ''images'' (fst cf) (cut default_ratios ys)) s'
            \<and> map (fst \<circ> snd)
                 (class_plan (args_output_root a) ''images'' (fst cf) (cut default_ratios ys)) = ys"
proof -
  from split_list_default_cut [OF assms(1)] obtain ys where
    ys: "mset ys = mset (snd cf)"
        "split_list R (snd cf) default_ratios (args_seed a) = Inr (cut default_ratios ys)"
        "map (fst \<circ> snd)
           (class_plan (args_output_root a) ''images'' (fst cf) (cut default_ratios ys)) = ys"
    by blast
  have "\<exists>s'. for_each (\<lambda>m. for_each (item_images E a (fst cf) (fst m)) (snd m))
               (mapping (cut default_ratios ys)) s = (None, s')
           \<and> grows (args_dry_run a) s
                (class_plan (args_output_root a) ''images'' (fst cf) (cut default_ratios ys)) s'"
    by (rule mapping_grows) (rule item_images_quiet [OF assms(2)])
  with ys show ?thesis by (auto simp: class_images_def)
qed

lemma class_videos_dry:
  assumes "rng_ok R" "args_dry_run a"
  shows "\<exists>ys s'. mset ys = mset (snd cf)
            \<and> class_videos R E a u cf s = (None, s')
            \<and> grows True s
                 (class_plan (args_output_root a) ''videos'' (fst cf) (cut default_ratios ys)) s'
            \<and> map (fst \<circ> snd)
                 (class_plan (args_output_root a) ''videos'' (fst cf) (cut default_ratios ys)) = ys"
proof -
  from split_list_default_cut [OF assms(1)] obtain ys where
    ys: "mset ys = mset (snd cf)"
        "split_list_videos R (snd cf) default_ratios (args_seed a) = Inr (cut default_ratios ys)"
        "map (fst \<circ> snd)
           (class_plan (args_output_root a) ''videos'' (fst cf) (cut default_ratios ys)) = ys"
    by blast
  have "\<exists>s'. for_each (\<lambda>m. for_each (item_videos E a u (fst cf) (fst m)) (snd m))
               (mapping (cut default_ratios ys)) s = (None, s')
           \<and> grows True s
                (class_plan (args_output_root a) ''videos'' (fst cf) (cut default_ratios ys)) s'"
    by (rule mapping_grows) (rule item_videos_dry [OF assms(2)])
  with ys show ?thesis by (auto simp: class_videos_def)
qed

lemma classes_grow:
  assumes "\<And>cf s. \<exists>ys s'. mset ys = mset (snd cf) \<and> body cf s = (None, s')
                       \<and> grows d s (pl cf ys) s' \<and> map (fst \<circ> snd) (pl cf ys) = ys"
  shows "\<exists>new s'. for_each body fbc s = (None, s') \<and> grows d s new s'
           \<and> mset (map (fst \<circ> snd) new) = mset (concat (map snd fbc))"
proof (induction fbc arbitrary: s)
  case Nil
  then show ?case by (auto intro: grows_refl)
next
  case (Cons cf fbc)
  from assms obtain ys s1 where
    1: "mset ys = mset (snd cf)" "body cf s = (None, s1)" "grows d s (pl cf ys) s1"
       "map (fst \<circ> snd) (pl cf ys) = ys" by blast
  from Cons.IH obtain new s2 where
    2: "for_each body fbc s1 = (None, s2)" "grows d s1 new s2"
       "mset (map (fst \<circ> snd) new) = mset (concat (map snd fbc))" by blast
  have m: "mset (map (fst \<circ> snd) (pl cf ys @ new)) = mset (concat (map snd (cf # fbc)))"
    using 1(1,4) 2(3) by simp
  have f: "for_each body (cf # fbc) s = (None, s2)" using 1(2) 2(1) by simp
  from f grows_trans [OF 1(3) 2(2)] m show ?case by blast
qed

lemma grows_from_start:
  assumes "grows d (start s0) new s'"
  shows "plan s' = new \<and> counts s' = tally new"
  using assms by (auto simp: grows_def start_def)

lemma main_images_quiet:
  assumes "rng_ok R" "args_dry_run a \<or> (\<forall>p. \<not> mkdir_fails E p)"
    and g: "gather_image_files (args_src_root a) t = Inr fbc"
  shows "\<exists>s'. main_images R E a (Some t) s = (None, s')
            \<and> counts s' = tally (plan s')
            \<and> mset (map (fst \<circ> snd) (plan s')) = mset (concat (map snd fbc))
            \<and> (args_dry_run a \<longrightarrow> dirs s' = dirs s \<and> files s' = files s \<and> calls s' = calls s)"
proof -
  let ?s2 = "start (say (Found (total_of fbc) (length fbc)) (say GatheringImageFiles s))"
  have "\<exists>new s'. for_each (class_images R E a) fbc ?s2 = (None, s')
            \<and> grows (args_dry_run a) ?s2 new s'
            \<and> mset (map (fst \<circ> snd) new) = mset (concat (map snd fbc))"
    by (rule classes_grow) (rule class_images_quiet [OF assms(1,2)])
  then obtain new s3 where
    3: "for_each (class_images R E a) fbc ?s2 = (None, s3)"
       "grows (args_dry_run a) ?s2 new s3"
       "mset (map (fst \<circ> snd) new) = mset (concat (map snd fbc))" by blast
  from grows_from_start [OF 3(2)] have p: "plan s3 = new" "counts s3 = tally new" by simp_all
  from 3(2) have w: "args_dry_run a \<longrightarrow> dirs s3 = dirs s \<and> files s3 = files s \<and> calls s3 = calls s"
    by (simp add: grows_def start_def say_def)
  let ?s' = "say (OutputStructureExample (args_output_root a @ [''train'', ''images'']))
               (say (Done (counts_of s3)) s3)"
  have "main_images R E a (Some t) s = (None, ?s')"
    using g 3(1) by (simp add: main_images_def)
  moreover have "counts ?s' = tally (plan ?s')" using p by (simp add: say_def)
  moreover have "mset (map (fst \<circ> snd) (plan ?s')) = mset (concat (map snd fbc))"
    using p 3(3) by (simp add: say_def)
  moreover have "args_dry_run a \<longrightarrow> dirs ?s' = dirs s \<and> files ?s' = files s \<and> calls ?s' = calls s"
    using w by (simp add: say_def)
  ultimately show ?thesis by blast
qed

lemma main_videos_dry:
  assumes "rng_ok R" "args_dry_run a"
    and g: "gather_video_files (args_src_root a) t = Inr fbc"
  shows "\<exists>s'. main_videos R E a (Some t) s = (None, s')
            \<and> counts s' = tally (plan s')
            \<and> mset (map (fst \<circ> snd) (plan s')) = mset (concat (map snd fbc))
            \<and> dirs s' = dirs s \<and> files s' = files s \<and> calls s' = calls s @ [Probe]"
proof -
  let ?u = "ffmpeg_installed E"
  let ?s2 = "start (say (if ?u then UsingFfmpeg else FfmpegNotAvailable)
                 (called Probe (say (Found (total_of fbc) (length fbc)) s)))"
  have "\<exists>new s'. for_each (class_videos R E a ?u) fbc ?s2 = (None, s')
            \<and> grows True ?s2 new s'
            \<and> mset (map (fst \<circ> snd) new) = mset (concat (map snd fbc))"
    by (rule classes_grow) (rule class_videos_dry [OF assms(1,2)])
  then obtain new s3 where
    3: "for_each (class_videos R E a ?u) fbc ?s2 = (None, s3)"
       "grows True ?s2 new s3"
       "mset (map (fst \<circ> snd) new) = mset (concat (map snd fbc))" by blast
  from grows_from_start [OF 3(2)] have p: "plan s3 = new" "counts s3 = tally new" by simp_all
  from 3(2) have w: "dirs s3 = dirs s \<and> files s3 = files s \<and> calls s3 = calls s @ [Probe]"
    by (simp add: grows_def start_def say_def called_def)
  let ?s' = "say (Done (counts_of s3)) s3"
  have "main_videos R E a (Some t) s = (None, ?s')"
    using g 3(1) by (simp add: main_videos_def ffmpeg_available_def)
  moreover have "counts ?s' = tally (plan ?s')" using p by (simp add: say_def)
  moreover have "mset (map (fst \<circ> snd) (plan ?s')) = mset (concat (map snd fbc))"
    using p 3(3) by (simp add: say_def)
  moreover have "dirs ?s' = dirs s \<and> files ?s' = files s \<and> calls ?s' = calls s @ [Probe]"
    using w by (simp add: say_def)
  ultimately show ?thesis by blast
qed

lemma name_of_snoc: "name_of (p @ [n]) = n"
  by (simp add: name_of_def)

lemma is_image_jpg: "is_image_file (p @ [''img'' @ [c] @ ''.jpg''])"
  by (simp add: is_image_file_def name_of_snoc suffix_of_def lower_def lower_char_def
      IMAGE_EXTS_def)

lemma relative_to_append: "relative_to (base @ q) base = Inr q"
  by (simp add: relative_to_def)

lemma path_str_Pose_Wrong: "replace_backslash (path_str [''Pose'', ''Wrong'']) = ''Pose/Wrong''"
  by (simp add: path_str_def replace_backslash_def)

lemma gather_scenario_A:
  "gather_image_files src scenario_A =
     Inr [(''Pose/Wrong'', map (\<lambda>n. src @ [''Pose'', ''Wrong'', n]) scenario_A_names)]"
proof -
  have w: "walk src scenario_A =
        [(src, [''Pose''], []), (src @ [''Pose''], [''Wrong''], []),
         (src @ [''Pose'', ''Wrong''], [], scenario_A_names)]"
    by (simp add: scenario_A_def scenario_A_names_def)
  have m: "filter is_image_file (map (\<lambda>f. (src @ [''Pose'', ''Wrong'']) @ [f]) scenario_A_names)
         = map (\<lambda>n. src @ [''Pose'', ''Wrong'', n]) scenario_A_names"
    using is_image_jpg [of "src @ [''Pose'', ''Wrong'']"]
    by (simp add: scenario_A_names_def)
  have ne: "scenario_A_names \<noteq> []"
    by (simp add: scenario_A_names_def)
  show ?thesis
    unfolding gather_image_files_def w
    by (simp add: Let_def m ne relative_to_append path_str_Pose_Wrong setdefault_extend_def
        del: append_assoc)
qed

lemma n1_10: "n1_of default_ratios 10 = 7"
  by (simp add: n1_of_def default_ratios_def fl_eval)

lemma n2_10: "n2_of default_ratios 10 = 9"
  by (simp add: n2_of_def default_ratios_def fl_eval)

lemma parse_Pose_Wrong:
  "anchor ''Pose/Wrong'' = []" "parse_path ''Pose/Wrong'' = [''Pose'', ''Wrong'']"
  by (simp_all add: parse_path_def anchor_def)

lemma set_class_plan:
  "anchor cl = [] \<Longrightarrow> e \<in> set (class_plan out kind cl t) \<Longrightarrow>
     snd (snd e) = out @ [split_name (fst e), kind] @ parse_path cl @ [name_of (fst (snd e))]"
  by (cases t) (auto simp: class_plan_def entry_def dst_path_of_def)

lemma tally_class_plan:
  "tally (class_plan out kind cl (tr, va, te)) k =
     (case k of Train \<Rightarrow> length tr | Val \<Rightarrow> length va | Test \<Rightarrow> length te)"
  by (cases k) (simp_all add: class_plan_def tally_append tally_entries)

lemma parent_in_ancestors: "d \<in> ancestors d"
proof -
  have "take (length d) d \<in> (\<lambda>k. take k d) ` {0 ..< Suc (length d)}"
    by (rule imageI) simp
  then show ?thesis by (simp add: ancestors_def)
qed

lemma setdefault_extend_head:
  "\<exists>rest more. setdefault_extend k' vs ((k, v) # d) = (k, v @ rest) # more"
  by (auto simp: setdefault_extend_def)

lemma gather_loop_head:
  "gather_loop P src ws ((k, v) # d) = Inr d' \<Longrightarrow> \<exists>rest more. d' = (k, v @ rest) # more"
proof (induction ws arbitrary: v d)
  case Nil
  then have "d' = (k, v @ []) # d" by simp
  then show ?case by blast
next
  case (Cons w ws)
  obtain rootp ds fs where w: "w = (rootp, ds, fs)" by (cases w)
  let ?media = "filter P (map (\<lambda>f. rootp @ [f]) fs)"
  show ?case
  proof (cases "?media = []")
    case True
    with Cons w show ?thesis by (simp add: Let_def)
  next
    case False
    with Cons.prems w obtain rel where
      rel: "relative_to rootp src = Inr rel"
      and g: "gather_loop P src ws
                (setdefault_extend (replace_backslash (path_str rel)) ?media ((k, v) # d)) = Inr d'"
      by (auto simp: Let_def split: sum.splits)
    from setdefault_extend_head obtain r1 m1 where
      "setdefault_extend (replace_backslash (path_str rel)) ?media ((k, v) # d) = (k, v @ r1) # m1"
      by blast
    with g Cons.IH [of "v @ r1" m1] show ?thesis by auto
  qed
qed

lemma label_of_root: "replace_backslash (path_str []) = ''.''"
  by (simp add: path_str_def replace_backslash_def)

lemma gather_loop_root:
  assumes "filter P (map (\<lambda>f. src @ [f]) (map fst (filter (\<lambda>e. \<not> is_dir (snd e)) es))) \<noteq> []"
  shows "\<exists>rest more. gather_loop P src (walk src (Dir es)) [] =
           Inr ((''.'', filter P (map (\<lambda>f. src @ [f])
                                    (map fst (filter (\<lambda>e. \<not> is_dir (snd e)) es))) @ rest) # more)"
proof -
  let ?media = "filter P (map (\<lambda>f. src @ [f]) (map fst (filter (\<lambda>e. \<not> is_dir (snd e)) es)))"
  have pre: "\<forall>x \<in> set (walk_entries src es). take (length src) (fst x) = src"
    by (rule walk_prefix(2)) simp
  from gather_loop_ok [OF pre] obtain d' where
    d': "gather_loop P src (walk_entries src es) [(''.'', ?media)] = Inr d'" by blast
  from gather_loop_head [OF d'] obtain rest more where "d' = (''.'', ?media @ rest) # more"
    by blast
  with d' assms show ?thesis
    by (simp add: Let_def relative_to_def label_of_root setdefault_extend_def)
qed

lemma parse_dot: "anchor ''.'' = []" "parse_path ''.'' = []"
  by (simp_all add: parse_path_def anchor_def)

section \<open>Claims about the partitioner\<close>

lemma split_list_default_both:
  assumes "rng_ok R"
  shows "\<exists>ys. mset ys = mset items
            \<and> split_list R items default_ratios seed = Inr (cut default_ratios ys)
            \<and> split_list_videos R items default_ratios seed = Inr (cut default_ratios ys)"
  using split_list_default [OF assms, of items seed]
  by (auto simp: split_list_videos_eq [OF ratios_ok_default])

text \<open>
  C1 (amended). With the ratios (0.7, 0.2, 0.1), any seed and any generator that keeps
  the contract of \<^verbatim>\<open>randbelow\<close>, both scripts' \<^verbatim>\<open>split_list\<close> return the same three
  lists; their concatenation is a permutation of the input, their lengths add up to the
  length of the input, and when the items are pairwise distinct (as the paths collected
  from one directory are) the three lists are pairwise disjoint.
\<close>

theorem split_list_partition:
  assumes "rng_ok R"
  shows "\<exists>tr va te.
           split_list R items default_ratios seed = Inr (tr, va, te)
         \<and> split_list_videos R items default_ratios seed = Inr (tr, va, te)
         \<and> mset (tr @ va @ te) = mset items
         \<and> length tr + length va + length te = length items
         \<and> (distinct items \<longrightarrow>
              set tr \<inter> set va = {} \<and> set tr \<inter> set te = {} \<and> set va \<inter> set te = {})"
proof -
  from split_list_default_both [OF assms] obtain ys where
    ys: "mset ys = mset items"
        "split_list R items default_ratios seed = Inr (cut default_ratios ys)"
        "split_list_videos R items default_ratios seed = Inr (cut default_ratios ys)"
    by blast
  obtain tr va te where c: "cut default_ratios ys = (tr, va, te)"
    by (cases "cut default_ratios ys")
  then have cat: "tr @ va @ te = ys" by (rule cut_default_partition)
  have "length (tr @ va @ te) = length items"
    using ys(1) by (simp only: cat) (metis size_mset)
  then have len: "length tr + length va + length te = length items" by simp
  have dis: "set tr \<inter> set va = {} \<and> set tr \<inter> set te = {} \<and> set va \<inter> set te = {}"
    if "distinct items"
  proof -
    from that ys(1) have "distinct ys" by (metis mset_eq_imp_distinct_iff)
    then have "distinct (tr @ va @ te)" by (simp only: cat)
    then show ?thesis by auto
  qed
  from ys c cat len dis show ?thesis by auto
qed

theorem split_list_partition_witness:
  "rng_ok lcg_random \<and> distinct [10, 20, 30 :: nat]
   \<and> (\<exists>tr va te.
           split_list lcg_random [10, 20, 30 :: nat] default_ratios 42 = Inr (tr, va, te)
         \<and> split_list_videos lcg_random [10, 20, 30] default_ratios 42 = Inr (tr, va, te)
         \<and> mset (tr @ va @ te) = mset [10, 20, 30]
         \<and> length tr + length va + length te = length [10, 20, 30 :: nat]
         \<and> set tr \<inter> set va = {} \<and> set tr \<inter> set te = {} \<and> set va \<inter> set te = {})"
proof -
  have d: "distinct [10, 20, 30 :: nat]" by simp
  from split_list_partition [OF rng_ok_lcg, of "[10, 20, 30 :: nat]" 42] d rng_ok_lcg
  show ?thesis by simp
qed

lemma shuffle_7_7:
  "shuffle lcg_random (seed_gen lcg_random 42) [7, 7 :: nat] = (None, [7, 7])"
  by (simp add: shuffle_def lcg_random_def numeral_2_eq_2 [symmetric])

lemma n1_2: "n1_of default_ratios 2 = 1"
  by (simp add: n1_of_def default_ratios_def fl_eval)

lemma n2_2: "n2_of default_ratios 2 = 1"
  by (simp add: n2_of_def default_ratios_def fl_eval)

lemma cut_7_7: "cut default_ratios [7, 7 :: nat] = ([7], [], [7])"
proof -
  have "length [7, 7 :: nat] = 2" by simp
  from cut_eval [OF this n1_2 n2_2] show ?thesis
    by (simp add: py_slice_to_def py_slice_def py_slice_from_def py_index_def)
qed

text \<open>
  C1 as stated fails on a list that holds an item twice: for \<^verbatim>\<open>[7, 7]\<close> the cuts are
  n1 = int(2 * 0.7) = 1 and n2 = int(2 * 0.8999999999999999) = 1, so train and test
  both hold the item 7, whatever the shuffle did.
\<close>

theorem split_list_duplicates_counterexample:
  "split_list lcg_random [7, 7 :: nat] default_ratios 42 = Inr ([7], [], [7])
   \<and> split_list_videos lcg_random [7, 7 :: nat] default_ratios 42 = Inr ([7], [], [7])
   \<and> set [7 :: nat] \<inter> set [7] \<noteq> {}"
  by (simp add: split_list_def split_list_videos_def ratios_ok_default shuffle_7_7 cut_7_7)

text \<open>
  C2. The claim asks for len(val) = floor(0.9 n) - floor(0.7 n) with exact floors. At
  n = 30 the code computes n2 = int(30 * (0.7 + 0.2)) = int(26.999999999999996) = 26 in
  binary64 arithmetic, so for every list of 30 items, every seed and every generator that
  keeps the contract, both scripts return splits of sizes 21, 5 and 4; the exact floors
  floor(21) = 21 and floor(27) - floor(21) = 6 ask for 21, 6 and 3.
\<close>

theorem split_list_sizes_at_30:
  assumes "rng_ok R" "length items = 30"
  shows "map_sum id sizes (split_list R items default_ratios seed) = Inr (21, 5, 4)
       \<and> map_sum id sizes (split_list_videos R items default_ratios seed) = Inr (21, 5, 4)
       \<and> \<lfloor>(9 / 10 :: rat) * 30\<rfloor> - \<lfloor>(7 / 10 :: rat) * 30\<rfloor> = 6"
proof -
  from split_list_default_both [OF assms(1)] obtain ys where
    ys: "mset ys = mset items"
        "split_list R items default_ratios seed = Inr (cut default_ratios ys)"
        "split_list_videos R items default_ratios seed = Inr (cut default_ratios ys)"
    by blast
  from ys(1) assms(2) have "length ys = 30" by (metis size_mset)
  then have "sizes (cut default_ratios ys) = (21, 5, 4)"
    by (simp add: sizes_cut n1_30 n2_30 py_slice_to_def py_slice_def py_slice_from_def
        py_index_def)
  then show ?thesis by (simp add: ys(2,3))
qed

theorem split_list_sizes_at_30_witness:
  "rng_ok lcg_random \<and> length [0 ..< 30] = 30
   \<and> map_sum id sizes (split_list lcg_random [0 ..< 30] default_ratios 42) = Inr (21, 5, 4)
   \<and> map_sum id sizes (split_list_videos lcg_random [0 ..< 30] default_ratios 42)
       = Inr (21, 5, 4)"
proof -
  have l: "length [0 ..< 30] = 30" by simp
  from split_list_sizes_at_30 [OF rng_ok_lcg l, of 42] l rng_ok_lcg
  show ?thesis by simp
qed

lemma split_list_videos_cut:
  assumes "rng_ok R"
  shows "\<exists>ys. mset ys = mset items \<and> split_list_videos R items rs sd = Inr (cut rs ys)"
proof -
  from shuffle_perm [OF assms] obtain ys
    where "shuffle R (seed_gen R sd) items = (None, ys)" "mset ys = mset items" by blast
  then show ?thesis by (auto simp: split_list_videos_def)
qed

lemma ratios_E_rejected: "\<not> ratios_ok (f_0_5, f_0_3, f_0_3)"
  by (simp add: ratios_ok_def py_sum_def fl_eval)

lemma n1_E_10: "n1_of (f_0_5, f_0_3, f_0_3) 10 = 5"
  by (simp add: n1_of_def fl_eval)

lemma n2_E_10: "n2_of (f_0_5, f_0_3, f_0_3) 10 = 8"
  by (simp add: n2_of_def fl_eval)

text \<open>
  C5. The claim fails in the video script: its \<^verbatim>\<open>split_list\<close> has no check of the ratios.
  For the ratios (0.5, 0.3, 0.3) of scenario E, whose sum 1.1 is not within 1e-6 of 1,
  the image script's \<^verbatim>\<open>split_list\<close> raises \<open>AssertionError\<close> before it shuffles, and the
  video script's returns, for every list of ten items, splits of sizes 5, 3 and 2.
\<close>

theorem video_split_list_accepts_bad_ratios:
  assumes "rng_ok R" "length items = 10"
  shows "\<not> ratios_ok (f_0_5, f_0_3, f_0_3)
       \<and> split_list R items (f_0_5, f_0_3, f_0_3) sd = Inl AssertionError
       \<and> map_sum id sizes (split_list_videos R items (f_0_5, f_0_3, f_0_3) sd) = Inr (5, 3, 2)"
proof -
  from split_list_videos_cut [OF assms(1)] obtain ys where
    ys: "mset ys = mset items"
        "split_list_videos R items (f_0_5, f_0_3, f_0_3) sd = Inr (cut (f_0_5, f_0_3, f_0_3) ys)"
    by blast
  from ys(1) assms(2) have "length ys = 10" by (metis size_mset)
  then have "sizes (cut (f_0_5, f_0_3, f_0_3) ys) = (5, 3, 2)"
    by (simp add: sizes_cut n1_E_10 n2_E_10 py_slice_to_def py_slice_def py_slice_from_def
        py_index_def)
  then show ?thesis by (simp add: ys(2) ratios_E_rejected split_list_def)
qed

theorem video_split_list_accepts_bad_ratios_witness:
  "rng_ok lcg_random \<and> length [0 ..< 10] = 10
   \<and> \<not> ratios_ok (f_0_5, f_0_3, f_0_3)
   \<and> split_list lcg_random [0 ..< 10] (f_0_5, f_0_3, f_0_3) 42 = Inl AssertionError
   \<and> map_sum id sizes (split_list_videos lcg_random [0 ..< 10] (f_0_5, f_0_3, f_0_3) 42)
       = Inr (5, 3, 2)"
proof -
  have l: "length [0 ..< 10] = 10" by simp
  from video_split_list_accepts_bad_ratios [OF rng_ok_lcg l, of 42] l rng_ok_lcg
  show ?thesis by simp
qed

section \<open>Claims about the pipelines\<close>

text \<open>
  C7. In a run of the video script on an existing source root, the calls to the outside
  world are: one probe for \<^verbatim>\<open>ffmpeg\<close>, before anything else, and after it only directory
  creations and calls of the backend that the probe selected (\<^verbatim>\<open>ffmpeg\<close> when the probe
  succeeded, OpenCV otherwise), whatever the items do: no second probe, and no call of
  the other backend after a failure, neither for that item nor for a later one. This
  holds for every environment \<open>E\<close>, hence for every pattern of failures, and also for runs
  that an exception ends early.
\<close>

theorem backend_selected_once:
  "\<exists>cs. calls (snd (main_videos R E a (Some t) s)) = calls s @ Probe # cs
        \<and> list_all (backend_only (ffmpeg_installed E)) cs"
proof -
  obtain fbc where g: "gather_video_files (args_src_root a) t = Inr fbc"
    using gather_video_files_ok by blast
  let ?u = "ffmpeg_installed E"
  let ?s2 = "start (say (if ?u then UsingFfmpeg else FfmpegNotAvailable)
                 (called Probe (say (Found (total_of fbc) (length fbc)) s)))"
  have c2: "calls ?s2 = calls s @ [Probe]" by (simp add: start_def say_def called_def)
  from calls_ext_classes [of ?u ?s2 R E a fbc] obtain cs where
    cs: "calls (snd (for_each (class_videos R E a ?u) fbc ?s2)) = calls ?s2 @ cs"
        "list_all (backend_only ?u) cs"
    by (auto simp: calls_ext_def)
  obtain r s3 where f: "for_each (class_videos R E a ?u) fbc ?s2 = (r, s3)"
    by (cases "for_each (class_videos R E a ?u) fbc ?s2")
  with cs c2 have "calls s3 = calls s @ Probe # cs" by simp
  moreover have "calls (snd (main_videos R E a (Some t) s)) = calls s3"
    using g f by (cases r) (simp_all add: main_videos_def ffmpeg_available_def say_def)
  ultimately show ?thesis using cs(2) by auto
qed

theorem backend_selected_once_witness:
  "\<exists>cs. calls (snd (main_videos lcg_random fallback_env real_args (Some scenario_C) empty_state))
           = calls empty_state @ Probe # cs
        \<and> list_all (backend_only (ffmpeg_installed fallback_env)) cs"
  by (rule backend_selected_once)

text \<open>
  C8. With \<^verbatim>\<open>--dry_run\<close>, on an existing source root and for every source tree, both
  scripts run to the end without an exception; every item that the collector found is
  planned exactly once (the planned source paths are, as a multiset, the collected
  files), the counter of each split is the number of triples planned for that split, so
  each planned (class, split, item) was counted exactly once; no directory and no file
  is created, and no transform is called: the image script makes no call at all, the
  video script only its probe for \<^verbatim>\<open>ffmpeg\<close>.
\<close>

theorem dry_run_plans_and_counts:
  assumes "rng_ok R" "args_dry_run a"
  shows "(\<exists>fbc s'. gather_image_files (args_src_root a) t = Inr fbc
            \<and> main_images R E a (Some t) s = (None, s')
            \<and> counts s' = tally (plan s')
            \<and> mset (map (fst \<circ> snd) (plan s')) = mset (concat (map snd fbc))
            \<and> dirs s' = dirs s \<and> files s' = files s \<and> calls s' = calls s)
       \<and> (\<exists>fbc s'. gather_video_files (args_src_root a) t = Inr fbc
            \<and> main_videos R E a (Some t) s = (None, s')
            \<and> counts s' = tally (plan s')
            \<and> mset (map (fst \<circ> snd) (plan s')) = mset (concat (map snd fbc))
            \<and> dirs s' = dirs s \<and> files s' = files s \<and> calls s' = calls s @ [Probe])"
proof
  obtain fbc where g: "gather_image_files (args_src_root a) t = Inr fbc"
    using gather_image_files_ok by blast
  from assms(2) have q: "args_dry_run a \<or> (\<forall>p. \<not> mkdir_fails E p)" by simp
  from main_images_quiet [OF assms(1) q g, of s] assms(2) g
  show "\<exists>fbc s'. gather_image_files (args_src_root a) t = Inr fbc
            \<and> main_images R E a (Some t) s = (None, s')
            \<and> counts s' = tally (plan s')
            \<and> mset (map (fst \<circ> snd) (plan s')) = mset (concat (map snd fbc))
            \<and> dirs s' = dirs s \<and> files s' = files s \<and> calls s' = calls s"
    by auto
next
  obtain fbc where g: "gather_video_files (args_src_root a) t = Inr fbc"
    using gather_video_files_ok by blast
  from main_videos_dry [OF assms g, of E s] g
  show "\<exists>fbc s'. gather_video_files (args_src_root a) t = Inr fbc
            \<and> main_videos R E a (Some t) s = (None, s')
            \<and> counts s' = tally (plan s')
            \<and> mset (map (fst \<circ> snd) (plan s')) = mset (concat (map snd fbc))
            \<and> dirs s' = dirs s \<and> files s' = files s \<and> calls s' = calls s @ [Probe]"
    by auto
qed

theorem dry_run_plans_and_counts_witness:
  "rng_ok lcg_random \<and> args_dry_run dry_args
   \<and> (\<exists>fbc s'. gather_image_files (args_src_root dry_args) scenario_C = Inr fbc
            \<and> main_images lcg_random fallback_env dry_args (Some scenario_C) empty_state = (None, s')
            \<and> counts s' = tally (plan s')
            \<and> mset (map (fst \<circ> snd) (plan s')) = mset (concat (map snd fbc))
            \<and> dirs s' = {} \<and> files s' = {} \<and> calls s' = [])
   \<and> (\<exists>fbc s'. gather_video_files (args_src_root dry_args) scenario_C = Inr fbc
            \<and> main_videos lcg_random fallback_env dry_args (Some scenario_C) empty_state = (None, s')
            \<and> counts s' = tally (plan s')
            \<and> mset (map (fst \<circ> snd) (plan s')) = mset (concat (map snd fbc))
            \<and> dirs s' = {} \<and> files s' = {} \<and> calls s' = [Probe])"
proof -
  have d: "args_dry_run dry_args" by (simp add: dry_args_def)
  from dry_run_plans_and_counts [OF rng_ok_lcg d, of scenario_C fallback_env empty_state]
    rng_ok_lcg d
  show ?thesis by (simp add: empty_state_def)
qed

text \<open>
  C3 (scenario A). On the source tree with the single class \<^verbatim>\<open>Pose/Wrong\<close> and its ten
  images, for every seed (42 among them) and every generator that keeps the contract,
  the image script, in a dry run or in a run in which no directory creation fails, ends
  without an exception with the counts (7, 2, 1); it computes ten triples, one for each
  of the ten images, and every destination path is
  \<^verbatim>\<open>output_root/<split>/images/Pose/Wrong/<file name>\<close>.
\<close>

theorem scenario_A_split:
  assumes "rng_ok R" "args_dry_run a \<or> (\<forall>p. \<not> mkdir_fails E p)"
  shows "\<exists>s'. main_images R E a (Some scenario_A) s = (None, s')
          \<and> counts_of s' = (7, 2, 1)
          \<and> length (plan s') = 10
          \<and> list_all (\<lambda>e. snd (snd e) =
                 args_output_root a
                 @ [split_name (fst e), ''images'', ''Pose'', ''Wrong'', name_of (fst (snd e))])
               (plan s')
          \<and> mset (map (fst \<circ> snd) (plan s'))
              = mset (map (\<lambda>n. args_src_root a @ [''Pose'', ''Wrong'', n]) scenario_A_names)"
proof -
  let ?files = "map (\<lambda>n. args_src_root a @ [''Pose'', ''Wrong'', n]) scenario_A_names"
  let ?cf = "(''Pose/Wrong'', ?files)"
  let ?s2 = "start (say (Found (total_of [?cf]) (length [?cf])) (say GatheringImageFiles s))"
  from class_images_quiet [OF assms, of ?cf ?s2] obtain ys s3 where
    ys: "mset ys = mset ?files"
    and run: "class_images R E a ?cf ?s2 = (None, s3)"
    and gr: "grows (args_dry_run a) ?s2
               (class_plan (args_output_root a) ''images'' ''Pose/Wrong'' (cut default_ratios ys)) s3"
    and srcs: "map (fst \<circ> snd)
               (class_plan (args_output_root a) ''images'' ''Pose/Wrong'' (cut default_ratios ys)) = ys"
    by auto
  let ?new = "class_plan (args_output_root a) ''images'' ''Pose/Wrong'' (cut default_ratios ys)"
  from ys have "length ys = length ?files" by (metis size_mset)
  then have len: "length ys = 10" by (simp add: scenario_A_names_def)
  from cut_eval [OF len n1_10 n2_10]
  have c: "cut default_ratios ys = (py_slice_to ys 7, py_slice ys 7 9, py_slice_from ys 9)" .
  from grows_from_start [OF gr] have p: "plan s3 = ?new" "counts s3 = tally ?new" by simp_all
  have cnt: "counts_of s3 = (7, 2, 1)"
    using len by (simp add: counts_of_def p(2) c tally_class_plan py_slice_to_def py_slice_def
        py_slice_from_def py_index_def)
  have "length ?new = length (map (fst \<circ> snd) ?new)" by simp
  also have "\<dots> = 10" by (simp only: srcs len)
  finally have l: "length (plan s3) = 10" by (simp add: p(1))
  have dst: "list_all (\<lambda>e. snd (snd e) =
                 args_output_root a
                 @ [split_name (fst e), ''images'', ''Pose'', ''Wrong'', name_of (fst (snd e))])
               (plan s3)"
    unfolding p(1) list_all_iff
  proof
    fix e assume "e \<in> set ?new"
    from set_class_plan [OF parse_Pose_Wrong(1) this]
    show "snd (snd e) = args_output_root a
            @ [split_name (fst e), ''images'', ''Pose'', ''Wrong'', name_of (fst (snd e))]"
      by (simp add: parse_Pose_Wrong)
  qed
  let ?s' = "say (OutputStructureExample (args_output_root a @ [''train'', ''images'']))
               (say (Done (counts_of s3)) s3)"
  have "main_images R E a (Some scenario_A) s = (None, ?s')"
    using run by (simp add: main_images_def gather_scenario_A)
  moreover have "counts_of ?s' = (7, 2, 1)" using cnt by (simp add: counts_of_def say_def)
  moreover have "length (plan ?s') = 10" using l by (simp add: say_def)
  moreover have "list_all (\<lambda>e. snd (snd e) =
                 args_output_root a
                 @ [split_name (fst e), ''images'', ''Pose'', ''Wrong'', name_of (fst (snd e))])
               (plan ?s')" using dst by (simp add: say_def)
  moreover have "mset (map (fst \<circ> snd) (plan ?s')) = mset ?files"
    using srcs ys by (simp add: say_def p(1))
  ultimately show ?thesis by blast
qed

theorem scenario_A_split_witness:
  "rng_ok lcg_random \<and> (\<forall>p. \<not> mkdir_fails fallback_env p) \<and> args_seed real_args = 42
   \<and> (\<exists>s'. main_images lcg_random fallback_env real_args (Some scenario_A) empty_state = (None, s')
          \<and> counts_of s' = (7, 2, 1)
          \<and> length (plan s') = 10
          \<and> list_all (\<lambda>e. snd (snd e) =
                 args_output_root real_args
                 @ [split_name (fst e), ''images'', ''Pose'', ''Wrong'', name_of (fst (snd e))])
               (plan s')
          \<and> mset (map (fst \<circ> snd) (plan s'))
              = mset (map (\<lambda>n. args_src_root real_args @ [''Pose'', ''Wrong'', n])
                        scenario_A_names))"
proof -
  have m: "\<forall>p. \<not> mkdir_fails fallback_env p" by (simp add: fallback_env_def)
  then have q: "args_dry_run real_args \<or> (\<forall>p. \<not> mkdir_fails fallback_env p)" by simp
  have sd: "args_seed real_args = 42" by (simp add: real_args_def)
  from scenario_A_split [OF rng_ok_lcg q, of empty_state] rng_ok_lcg m sd
  show ?thesis by blast
qed

text \<open>
  C10. \<^verbatim>\<open>resize_and_save\<close> and \<^verbatim>\<open>reencode_with_ffmpeg\<close> create the parent directory of the
  destination first, outside their \<^verbatim>\<open>try\<close>. When the creation fails, the error leaves the
  function with nothing but the \<^verbatim>\<open>mkdir\<close> call made, and in a real run it leaves the loop
  over the items as well. When it succeeds, the transform is called after it and the
  parent directory exists afterwards, whether the transform succeeds or fails (\<open>E\<close> is
  arbitrary).
\<close>

theorem mkdir_precedes_transform:
  "(mkdir_fails E (parent_of dst) \<longrightarrow>
      resize_and_save E src dst s = (Some OSError, called (Mkdir (parent_of dst)) s)
    \<and> reencode_with_ffmpeg E src dst s = (Inl OSError, called (Mkdir (parent_of dst)) s))
   \<and> (\<not> mkdir_fails E (parent_of dst) \<longrightarrow>
      fst (resize_and_save E src dst s) = None
    \<and> parent_of dst \<in> dirs (snd (resize_and_save E src dst s))
    \<and> calls (snd (resize_and_save E src dst s))
        = calls s @ [Mkdir (parent_of dst), Resize src dst]
    \<and> parent_of dst \<in> dirs (snd (reencode_with_ffmpeg E src dst s))
    \<and> calls (snd (reencode_with_ffmpeg E src dst s))
        = calls s @ [Mkdir (parent_of dst), Ffmpeg src dst])
   \<and> (\<not> args_dry_run a
        \<and> mkdir_fails E (parent_of (dst_path_of (args_output_root a) sp ''images'' cl src))
      \<longrightarrow> fst (for_each (item_images E a cl sp) (src # rest) s) = Some OSError)
   \<and> (\<not> args_dry_run a
        \<and> mkdir_fails E (parent_of (dst_path_of (args_output_root a) sp ''videos'' cl src))
      \<longrightarrow> fst (for_each (item_videos E a True cl sp) (src # rest) s) = Some OSError)"
  using parent_in_ancestors [of "parent_of dst"]
  by (auto simp: resize_and_save_def reencode_with_ffmpeg_def mkdir_parents_def called_def
      say_def Let_def item_images_def item_videos_def planned_def)

theorem mkdir_precedes_transform_witness:
  "mkdir_fails readonly_env (parent_of sample_dst)
   \<and> resize_and_save readonly_env sample_src sample_dst empty_state
       = (Some OSError, called (Mkdir (parent_of sample_dst)) empty_state)
   \<and> reencode_with_ffmpeg readonly_env sample_src sample_dst empty_state
       = (Inl OSError, called (Mkdir (parent_of sample_dst)) empty_state)
   \<and> \<not> mkdir_fails fallback_env (parent_of sample_dst)
   \<and> image_fails (fallback_env\<lparr>image_fails := (\<lambda>x y. True)\<rparr>) sample_src sample_dst
   \<and> parent_of sample_dst
       \<in> dirs (snd (resize_and_save (fallback_env\<lparr>image_fails := (\<lambda>x y. True)\<rparr>)
                      sample_src sample_dst empty_state))
   \<and> parent_of sample_dst
       \<in> dirs (snd (reencode_with_ffmpeg (fallback_env\<lparr>image_fails := (\<lambda>x y. True)\<rparr>)
                      sample_src sample_dst empty_state))
   \<and> \<not> args_dry_run real_args
   \<and> fst (for_each (item_images readonly_env real_args ''Pose'' Train)
             [sample_src, sample_src] empty_state) = Some OSError
   \<and> fst (for_each (item_videos readonly_env real_args True ''Pose'' Train)
             [sample_src, sample_src] empty_state) = Some OSError"
proof -
  have f: "mkdir_fails readonly_env d" for d
    by (simp add: readonly_env_def)
  have n: "\<not> mkdir_fails (fallback_env\<lparr>image_fails := (\<lambda>x y. True)\<rparr>) (parent_of sample_dst)"
    "\<not> mkdir_fails fallback_env (parent_of sample_dst)"
    by (simp_all add: fallback_env_def)
  have i: "image_fails (fallback_env\<lparr>image_fails := (\<lambda>x y. True)\<rparr>) sample_src sample_dst"
    by simp
  have r: "\<not> args_dry_run real_args" by (simp add: real_args_def)
  from mkdir_precedes_transform
         [of readonly_env sample_dst sample_src empty_state real_args Train "''Pose''"
             "[sample_src]"]
       mkdir_precedes_transform
         [of "fallback_env\<lparr>image_fails := (\<lambda>x y. True)\<rparr>" sample_dst sample_src
             empty_state real_args Train "''Pose''" "[sample_src]"]
       f n i r
  show ?thesis by simp
qed

text \<open>
  C9. When the source root itself holds matching media files, the collector files them
  under the class label \<^verbatim>\<open>.\<close>, which is the first class of its result (the list may grow
  by files of another directory that gets the same label). For an item of that class
  the destination path is \<^verbatim>\<open>output_root/<split>/<kind>/<file name>\<close>: pathlib drops the
  component \<^verbatim>\<open>.\<close>, so the file lies directly under the directory of the media kind.
\<close>

theorem root_files_get_dot_label:
  "(filter is_image_file (map (\<lambda>f. src @ [f]) (map fst (filter (\<lambda>e. \<not> is_dir (snd e)) es))) \<noteq> []
     \<longrightarrow> (\<exists>rest more. gather_image_files src (Dir es) =
           Inr ((''.'', filter is_image_file
                          (map (\<lambda>f. src @ [f]) (map fst (filter (\<lambda>e. \<not> is_dir (snd e)) es)))
                        @ rest) # more)))
   \<and> (filter is_video_file (map (\<lambda>f. src @ [f]) (map fst (filter (\<lambda>e. \<not> is_dir (snd e)) es))) \<noteq> []
     \<longrightarrow> (\<exists>rest more. gather_video_files src (Dir es) =
           Inr ((''.'', filter is_video_file
                          (map (\<lambda>f. src @ [f]) (map fst (filter (\<lambda>e. \<not> is_dir (snd e)) es)))
                        @ rest) # more)))
   \<and> dst_path_of out sp kind ''.'' p = out @ [split_name sp, kind, name_of p]"
  using gather_loop_root [of is_image_file src es] gather_loop_root [of is_video_file src es]
  by (simp add: gather_image_files_def gather_video_files_def dst_path_of_def parse_dot)

lemma root_images_flat:
  "filter is_image_file
     (map (\<lambda>f. [''yoga''] @ [f]) (map fst (filter (\<lambda>e. \<not> is_dir (snd e))
        [(''a.JPG'', File), (''notes.txt'', File), (''clip.mp4'', File),
         (''sub'', Dir [(''c.png'', File)])])))
   = [[''yoga'', ''a.JPG'']]"
  by (simp add: is_image_file_def name_of_def suffix_of_def lower_def lower_char_def
      IMAGE_EXTS_def)

lemma root_videos_flat:
  "filter is_video_file
     (map (\<lambda>f. [''yoga''] @ [f]) (map fst (filter (\<lambda>e. \<not> is_dir (snd e))
        [(''a.JPG'', File), (''notes.txt'', File), (''clip.mp4'', File),
         (''sub'', Dir [(''c.png'', File)])])))
   = [[''yoga'', ''clip.mp4'']]"
  by (simp add: is_video_file_def name_of_def suffix_of_def lower_def lower_char_def
      VIDEO_EXTS_def)

theorem root_files_get_dot_label_witness:
  "[[''yoga'', ''a.JPG'']] \<noteq> []
   \<and> (\<exists>rest more. gather_image_files [''yoga''] flat_tree =
         Inr ((''.'', [[''yoga'', ''a.JPG'']] @ rest) # more))
   \<and> [[''yoga'', ''clip.mp4'']] \<noteq> []
   \<and> (\<exists>rest more. gather_video_files [''yoga''] flat_tree =
         Inr ((''.'', [[''yoga'', ''clip.mp4'']] @ rest) # more))
   \<and> dst_path_of [''dataset_processed''] Train ''images'' ''.'' [''yoga'', ''a.JPG'']
       = [''dataset_processed'', ''train'', ''images'', ''a.JPG'']"
  using root_files_get_dot_label
          [of "[''yoga'']"
              "[(''a.JPG'', File), (''notes.txt'', File), (''clip.mp4'', File),
                (''sub'', Dir [(''c.png'', File)])]"
              "[''dataset_processed'']" Train "''images''" "[''yoga'', ''a.JPG'']"]
  by (simp only: root_images_flat root_videos_flat flat_tree_def [symmetric])
     (simp add: name_of_def)

lemma mod_Suc_Suc_0: "m mod Suc (Suc 0) = m mod 2"
  by (simp add: numeral_2_eq_2)

lemma shuffle_lcg_5:
  "shuffle lcg_random (seed_gen lcg_random 42) [a, b, c, d, e] = (None, [a, b, e, d, c])"
  by (simp add: shuffle_def lcg_random_def mod_Suc_Suc_0)

lemma is_video_mp4: "is_video_file (p @ [[CHR ''v'', c] @ ''.mp4''])"
  by (simp add: is_video_file_def name_of_snoc suffix_of_def lower_def lower_char_def
      VIDEO_EXTS_def)

lemma gather_scenario_C:
  "gather_video_files src scenario_C =
     Inr [(''Tree'', map (\<lambda>n. src @ [''Tree'', n])
                      [''v1.mp4'', ''v2.mp4'', ''v3.mp4'', ''v4.mp4'', ''v5.mp4''])]"
proof -
  have w: "walk src scenario_C =
        [(src, [''Tree''], []),
         (src @ [''Tree''], [], [''v1.mp4'', ''v2.mp4'', ''v3.mp4'', ''v4.mp4'', ''v5.mp4''])]"
    by (simp add: scenario_C_def)
  show ?thesis
    unfolding gather_video_files_def w
    using is_video_mp4 [of "src @ [''Tree'']"]
    by (simp add: Let_def relative_to_append path_str_def replace_backslash_def
        setdefault_extend_def)
qed

lemma n1_5: "n1_of default_ratios 5 = 3"
  by (simp add: n1_of_def default_ratios_def fl_eval)

lemma n2_5: "n2_of default_ratios 5 = 4"
  by (simp add: n2_of_def default_ratios_def fl_eval)

lemma cut_5: "cut default_ratios [a, b, e, d, c] = ([a, b, e], [d], [c])"
proof -
  have "length [a, b, e, d, c] = 5" by simp
  from cut_eval [OF this n1_5 n2_5] show ?thesis
    by (simp add: py_slice_to_def py_slice_def py_slice_from_def py_index_def)
qed

lemma split_list_videos_lcg_5:
  "split_list_videos lcg_random [a, b, c, d, e] default_ratios 42 = Inr ([a, b, e], [d], [c])"
  by (simp add: split_list_videos_def shuffle_lcg_5 cut_5)

lemma for_each_stops:
  "body x s = (Some e, s') \<Longrightarrow> for_each body (x # xs) s = (Some e, s')"
  by simp

lemma dst_v1:
  "dst_path_of [''dataset_processed''] Train ''videos'' ''Tree'' [''yoga'', ''Tree'', ''v1.mp4'']
   = [''dataset_processed'', ''train'', ''videos'', ''Tree'', ''v1.mp4'']"
  by (simp add: dst_path_of_def parse_path_def anchor_def name_of_def)

lemma opencv_first_frame:
  "\<not> mkdir_fails E (parent_of dst) \<Longrightarrow> cv2_installed E \<Longrightarrow> cv2_opens E src
   \<Longrightarrow> cv2_frames E src = Suc k
   \<Longrightarrow> reencode_with_opencv E src dst s =
        (Inl NameError,
         (called (Mkdir (parent_of dst)) (called (OpenCV src dst) s))
           \<lparr>dirs := dirs s \<union> ancestors (parent_of dst), files := insert dst (files s)\<rparr>)"
  by (simp add: reencode_with_opencv_def mkdir_parents_def called_def Let_def)

lemma opencv_fallback_env:
  "reencode_with_opencv fallback_env src dst s =
        (Inl NameError,
         (called (Mkdir (parent_of dst)) (called (OpenCV src dst) s))
           \<lparr>dirs := dirs s \<union> ancestors (parent_of dst), files := insert dst (files s)\<rparr>)"
  by (rule opencv_first_frame [where k = 2]) (simp_all add: fallback_env_def)

text \<open>
  C6. The claim fails on the OpenCV fallback. On a host without \<^verbatim>\<open>ffmpeg\<close> and with OpenCV
  (every video opens and has frames), a real run on the five videos of scenario C ends
  with an uncaught \<open>NameError\<close> at the first frame of the first video: one item was
  planned and counted, one backend call was made, and the four other videos were never
  attempted.
\<close>

theorem opencv_fallback_halts_run:
  "fst (main_videos lcg_random fallback_env real_args (Some scenario_C) empty_state)
     = Some NameError
   \<and> plan (snd (main_videos lcg_random fallback_env real_args (Some scenario_C) empty_state))
     = [(Train, [''yoga'', ''Tree'', ''v1.mp4''],
         [''dataset_processed'', ''train'', ''videos'', ''Tree'', ''v1.mp4''])]
   \<and> counts_of (snd (main_videos lcg_random fallback_env real_args (Some scenario_C) empty_state))
     = (1, 0, 0)
   \<and> calls (snd (main_videos lcg_random fallback_env real_args (Some scenario_C) empty_state))
     = [Probe,
        OpenCV [''yoga'', ''Tree'', ''v1.mp4'']
               [''dataset_processed'', ''train'', ''videos'', ''Tree'', ''v1.mp4''],
        Mkdir [''dataset_processed'', ''train'', ''videos'', ''Tree'']]"
proof -
  let ?v1 = "[''yoga'', ''Tree'', ''v1.mp4'']"
  let ?d1 = "[''dataset_processed'', ''train'', ''videos'', ''Tree'', ''v1.mp4'']"
  let ?files = "[?v1, [''yoga'', ''Tree'', ''v2.mp4''], [''yoga'', ''Tree'', ''v3.mp4''],
                 [''yoga'', ''Tree'', ''v4.mp4''], [''yoga'', ''Tree'', ''v5.mp4'']]"
  let ?s2 = "start (say FfmpegNotAvailable (called Probe (say (Found 5 (Suc 0)) empty_state)))"
  let ?s3 = "(called (Mkdir (parent_of ?d1)) (called (OpenCV ?v1 ?d1) (planned Train ?v1 ?d1 ?s2)))
               \<lparr>dirs := dirs (planned Train ?v1 ?d1 ?s2) \<union> ancestors (parent_of ?d1),
                files := insert ?d1 (files (planned Train ?v1 ?d1 ?s2))\<rparr>"
  have a: "args_src_root real_args = [''yoga'']" "args_output_root real_args = [''dataset_processed'']"
    "args_seed real_args = 42" "\<not> args_dry_run real_args"
    by (simp_all add: real_args_def)
  have g: "gather_video_files [''yoga''] scenario_C = Inr [(''Tree'', ?files)]"
    by (simp add: gather_scenario_C)
  have item: "item_videos fallback_env real_args False ''Tree'' Train ?v1 ?s2 = (Some NameError, ?s3)"
    by (simp add: item_videos_def Let_def a dst_v1 opencv_fallback_env)
  have sp: "split_list_videos lcg_random ?files default_ratios 42
              = Inr ([?v1, [''yoga'', ''Tree'', ''v2.mp4''], [''yoga'', ''Tree'', ''v5.mp4'']],
                     [[''yoga'', ''Tree'', ''v4.mp4'']], [[''yoga'', ''Tree'', ''v3.mp4'']])"
    by (simp add: split_list_videos_lcg_5)
  have cls: "class_videos lcg_random fallback_env real_args False (''Tree'', ?files) ?s2
               = (Some NameError, ?s3)"
    by (simp add: class_videos_def a sp mapping_def item)
  have u: "\<not> ffmpeg_installed fallback_env" by (simp add: fallback_env_def)
  have t: "total_of [(''Tree'', ?files)] = 5" by (simp add: total_of_def)
  have "main_videos lcg_random fallback_env real_args (Some scenario_C) empty_state
          = (Some NameError, ?s3)"
    by (simp add: main_videos_def a g ffmpeg_available_def u t cls)
  then show ?thesis
    by (simp add: counts_of_def planned_def called_def start_def say_def empty_state_def
        parent_of_def)
qed

end
